theory Spec2Isabelle
  imports Complex_Main "HOL-Library.Word"
begin

section \<open>The TDT tank reader (neo/rawio/tdtrawio.py)\<close>

text \<open>
  A shallow embedding of \<^verbatim>\<open>TdtRawIO\<close>: the constructor, the passes of
  \<^verbatim>\<open>_parse_header\<close> and the data-plane readers. What the source reads from the file
  system (directory listings, the decoded index and descriptor files, the mapped data
  buffers) is an input of the model; every \<^verbatim>\<open>raise\<close>, failing \<^verbatim>\<open>assert\<close> and
  out-of-range access is a value \<open>Inl e\<close>.
\<close>

subsection \<open>Errors and Python helpers\<close>

datatype error =
  ValueError | AssertionError | IndexError | KeyError | OSError | OverflowError | TypeError

text \<open>Sequencing of fallible steps: the first error ends the computation.\<close>

definition bind :: "error + 'a \<Rightarrow> ('a \<Rightarrow> error + 'b) \<Rightarrow> error + 'b" where
  "bind m f = (case m of Inl e \<Rightarrow> Inl e | Inr x \<Rightarrow> f x)"

text \<open>
  \<^verbatim>\<open>xs[i]\<close> on a list or array: a negative index counts from the end, an index out of
  range raises IndexError.
\<close>

definition py_index :: "'a list \<Rightarrow> int \<Rightarrow> error + 'a" where
  "py_index xs i =
     (if - int (length xs) \<le> i \<and> i < int (length xs)
      then Inr (xs ! nat (if i < 0 then i + int (length xs) else i))
      else Inl IndexError)"

text \<open>
  \<^verbatim>\<open>xs[i:j]\<close>: a missing bound is \<open>None\<close>; a negative bound counts from the end; both
  are clipped to the list, and the slice is empty when the bounds cross.
\<close>

definition clip_bound :: "nat \<Rightarrow> int \<Rightarrow> nat" where
  "clip_bound n i = (if i < 0 then nat (max 0 (int n + i)) else min (nat i) n)"

definition py_slice :: "'a list \<Rightarrow> int option \<Rightarrow> int option \<Rightarrow> 'a list" where
  "py_slice xs lo hi =
     (let n = length xs;
          i = (case lo of None \<Rightarrow> 0 | Some a \<Rightarrow> clip_bound n a);
          j = (case hi of None \<Rightarrow> n | Some b \<Rightarrow> clip_bound n b)
      in take (j - i) (drop i xs))"

text \<open>\<^verbatim>\<open>range(a, b)\<close> over Python integers.\<close>

definition py_range :: "int \<Rightarrow> int \<Rightarrow> int list" where
  "py_range a b = map (\<lambda>k. a + int k) [0..<nat (b - a)]"

subsection \<open>Decoded file contents\<close>

text \<open>
  A float64 or float32 field. Only equality and order of these values are used by the
  reader, so a value is a real number or NaN; rounding is not modelled. NaN is unequal to
  everything, itself included.
\<close>

datatype float64 = NaN | Val real

fun float_eq :: "float64 \<Rightarrow> float64 \<Rightarrow> bool" where
  "float_eq (Val a) (Val b) = (a = b)"
| "float_eq _ _ = False"

fun float_sub :: "float64 \<Rightarrow> float64 \<Rightarrow> float64" where
  "float_sub (Val a) (Val b) = Val (a - b)"
| "float_sub _ _ = NaN"

type_synonym byte = "8 word"

text \<open>\<^verbatim>\<open>tsq_dtype\<close>: one record of the index file.\<close>

record tsq_record =
  rsize :: int
  evtype :: int
  evname :: string
  channel :: nat
  sortcode :: "16 word"
  timestamp :: float64
  offset :: int
  dataformat :: int
  frequency :: float64

text \<open>\<^verbatim>\<open>tbk_field_types\<close>: one channel-group descriptor.\<close>

record channel_group =
  StoreName :: string
  HeadName :: string
  Enabled :: bool
  CircType :: int
  NumChan :: int
  StrobeMode :: int
  TankEvType :: int
  NumPoints :: int
  DataFormat :: int
  SampleFreq :: float64

definition EVTYPE_STRON :: int where "EVTYPE_STRON = 257"
definition EVTYPE_STREAM :: int where "EVTYPE_STREAM = 33025"
definition EVTYPE_STREAM_VARIANT :: int where "EVTYPE_STREAM_VARIANT = 33041"
definition EVTYPE_SNIP :: int where "EVTYPE_SNIP = 33281"
definition EVMARK_STARTBLOCK :: nat where "EVMARK_STARTBLOCK = 1"
definition EVMARK_STOPBLOCK :: nat where "EVMARK_STOPBLOCK = 2"

text \<open>
  Element types: the values of \<^verbatim>\<open>data_formats\<close> and the placeholder \<^verbatim>\<open>int\<close> used
  for a channel without chunks.
\<close>

datatype dtype = Float32 | Int32 | Int16 | Int8 | Float64 | PyInt

definition data_formats :: "int \<Rightarrow> error + dtype" where
  "data_formats k =
     (if k = 0 then Inr Float32 else if k = 1 then Inr Int32 else if k = 2 then Inr Int16
      else if k = 3 then Inr Int8 else if k = 4 then Inr Float64 else Inl KeyError)"

fun itemsize :: "dtype \<Rightarrow> nat" where
  "itemsize Float32 = 4"
| "itemsize Int32 = 4"
| "itemsize Int16 = 2"
| "itemsize Int8 = 1"
| "itemsize Float64 = 8"
| "itemsize PyInt = 8"

text \<open>
  An array element is kept as the bytes that store it. \<^verbatim>\<open>bytes.view(dt)\<close> regroups a
  byte array into elements of \<open>itemsize dt\<close> bytes and raises ValueError when the byte
  count is not a multiple of the element width.
\<close>

type_synonym elem = "byte list"

fun chunks_of :: "nat \<Rightarrow> 'a list \<Rightarrow> 'a list list" where
  "chunks_of k xs =
     (if k = 0 \<or> xs = [] then [] else take k xs # chunks_of k (drop k xs))"

declare chunks_of.simps [simp del]

definition view :: "dtype \<Rightarrow> byte list \<Rightarrow> error + elem list" where
  "view dt bs =
     (if length bs mod itemsize dt \<noteq> 0 then Inl ValueError
      else Inr (chunks_of (itemsize dt) bs))"

text \<open>\<^verbatim>\<open>d[k]\<close> on a dictionary: a missing key raises KeyError.\<close>

definition lookup :: "('k \<rightharpoonup> 'v) \<Rightarrow> 'k \<Rightarrow> error + 'v" where
  "lookup m k = (case m k of None \<Rightarrow> Inl KeyError | Some v \<Rightarrow> Inr v)"

text \<open>\<^verbatim>\<open>str(n)\<close> and \<^verbatim>\<open>'{}'.format(n)\<close> for an integer: its decimal digits.\<close>

fun str_nat :: "nat \<Rightarrow> string" where
  "str_nat n =
     (if n < 10 then [''0123456789'' ! n]
      else str_nat (n div 10) @ [''0123456789'' ! (n mod 10)])"

declare str_nat.simps [simp del]

definition str_int :: "int \<Rightarrow> string" where
  "str_int i = (if i < 0 then CHR ''-'' # str_nat (nat (- i)) else str_nat (nat i))"

subsection \<open>The reader object\<close>

text \<open>
  The header tables hold the tuples the source appends, before numpy stores them in
  the arrays of \<^verbatim>\<open>baserawio\<close>.
\<close>

record signal_channel =
  sc_name :: string
  sc_id :: string
  sc_sampling_rate :: float64
  sc_dtype :: dtype
  sc_units :: string
  sc_gain :: float64
  sc_offset :: float64
  sc_stream_id :: string

record spike_channel =
  sp_name :: string
  sp_id :: string
  sp_wf_units :: string
  sp_wf_gain :: float64
  sp_wf_offset :: float64
  sp_wf_left_sweep :: int
  sp_wf_sampling_rate :: float64

record event_channel =
  ev_name :: string
  ev_id :: nat
  ev_type :: string

record header =
  nb_block :: nat
  nb_segment :: "nat list"
  signal_streams :: "(string \<times> string) list"
  signal_channels :: "signal_channel list"
  spike_channels :: "spike_channel list"
  event_channels :: "event_channel list"

datatype block_mode = Multi | Single

text \<open>
  The attributes of a \<^verbatim>\<open>TdtRawIO\<close> object. The nested dictionaries
  \<^verbatim>\<open>d[seg_index][key]\<close> are maps on pairs; \<^verbatim>\<open>header\<close> is \<open>None\<close> until
  \<^verbatim>\<open>_parse_header\<close> has run.
\<close>

record tdtrawio =
  dirname :: string
  tdt_block_mode :: block_mode
  sortname :: string
  tev_datas :: "byte list option list"
  tsq :: "tsq_record list list"
  seg_t_starts :: "float64 list"
  seg_t_stops :: "float64 list"
  global_t_start :: float64
  sigs_data_buf :: "nat \<times> nat \<rightharpoonup> byte list"
  sigs_index :: "nat \<times> nat \<rightharpoonup> tsq_record list"
  sig_dtype_by_group :: "nat \<rightharpoonup> dtype"
  sig_sample_per_chunk :: "nat \<rightharpoonup> int"
  sigs_lengths :: "nat \<times> nat \<rightharpoonup> int"
  sigs_t_start :: "nat \<times> nat \<rightharpoonup> float64"
  internal_unit_ids :: "(string \<times> nat \<times> 16 word) list"
  waveforms_size :: "int list"
  waveforms_dtype :: "dtype list"
  header :: "header option"

definition get_header :: "tdtrawio \<Rightarrow> error + header" where
  "get_header self = (case header self of None \<Rightarrow> Inl TypeError | Some h \<Rightarrow> Inr h)"

subsection \<open>Chunked signal reader: \<^verbatim>\<open>_get_analogsignal_chunk\<close>\<close>

text \<open>
  A two-dimensional result array: \<open>nrows\<close> by \<open>length (columns a)\<close> elements of type
  \<open>elem_type a\<close>, kept column by column.
\<close>

record ndarray =
  nrows :: nat
  elem_type :: dtype
  columns :: "elem list list"

text \<open>
  \<^verbatim>\<open>col[ind:ind + len(data)] = data\<close>: the target slice is clipped to the column; the
  data must have the slice's length, or one element (which numpy broadcasts).
\<close>

definition assign_slice :: "'a list \<Rightarrow> nat \<Rightarrow> 'a list \<Rightarrow> error + 'a list" where
  "assign_slice col ind data =
     (let k = length data;
          tlen = length (py_slice col (Some (int ind)) (Some (int (ind + k))))
      in if tlen = k then Inr (take ind col @ data @ drop (ind + k) col)
         else if k = 1 then Inr (take ind col @ replicate tlen (hd data) @ drop (ind + tlen) col)
         else Inl ValueError)"

text \<open>
  The body of the loop over data blocks (lines 398 to 412): the chunk \<open>bl\<close> of one
  channel, cut at the right border when it is the last chunk and at the left border
  when it is the first.
\<close>

definition get_chunk ::
  "tsq_record list \<Rightarrow> byte list \<Rightarrow> dtype \<Rightarrow> int \<Rightarrow> int \<Rightarrow> int \<Rightarrow> int \<Rightarrow> int \<Rightarrow> int
     \<Rightarrow> error + elem list" where
  "get_chunk data_index data_buf dt sample_per_chunk i_start i_stop bl0 bl1 bl =
     bind (py_index data_index bl) (\<lambda>r.
       let ind0 = offset r;
           ind1 = ind0 + sample_per_chunk * int (itemsize dt)
       in bind (view dt (py_slice data_buf (Some ind0) (Some ind1))) (\<lambda>data.
            let data1 =
                  (if bl = bl1 - 1 then
                     (let border = int (length data) - (i_stop mod sample_per_chunk)
                      in if border \<noteq> int (length data)
                         then py_slice data None (Some (- border)) else data)
                   else data);
                data2 =
                  (if bl = bl0 then py_slice data1 (Some (i_start mod sample_per_chunk)) None
                   else data1)
            in Inr data2))"

text \<open>The loop over data blocks: each chunk is written at \<open>ind\<close>, which then advances.\<close>

fun fill_column ::
  "(int \<Rightarrow> error + 'a list) \<Rightarrow> int list \<Rightarrow> nat \<Rightarrow> 'a list \<Rightarrow> error + 'a list" where
  "fill_column chunk [] ind col = Inr col"
| "fill_column chunk (bl # bls) ind col =
     bind (chunk bl) (\<lambda>data.
       bind (assign_slice col ind data) (\<lambda>col'.
         fill_column chunk bls (ind + length data) col'))"

text \<open>The loop over the selected channels; the first failing channel ends the read.\<close>

fun mapM :: "('a \<Rightarrow> error + 'b) \<Rightarrow> 'a list \<Rightarrow> error + 'b list" where
  "mapM f [] = Inr []"
| "mapM f (x # xs) = bind (f x) (\<lambda>y. bind (mapM f xs) (\<lambda>ys. Inr (y # ys)))"

text \<open>
  \<^verbatim>\<open>int(np.ceil(i_stop / sample_per_chunk))\<close>. The quotient is taken exactly (the
  source divides in float64, which is exact for sample numbers below \<open>2 ^ 53\<close>). A zero
  chunk size gives an infinite or undefined quotient, which \<^verbatim>\<open>int\<close> refuses.
\<close>

definition ceil_div :: "int \<Rightarrow> int \<Rightarrow> error + int" where
  "ceil_div a b =
     (if b = 0 then (if a = 0 then Inl ValueError else Inl OverflowError)
      else Inr (- ((- a) div b)))"

definition zero_elem :: "dtype \<Rightarrow> elem" where
  "zero_elem dt = replicate (itemsize dt) 0"

definition read_column ::
  "tdtrawio \<Rightarrow> nat \<Rightarrow> dtype \<Rightarrow> int \<Rightarrow> int \<Rightarrow> int \<Rightarrow> int \<Rightarrow> int \<Rightarrow> nat \<Rightarrow> error + elem list" where
  "read_column self seg_index dt sample_per_chunk i_start i_stop bl0 bl1 global_index =
     bind (lookup (sigs_index self) (seg_index, global_index)) (\<lambda>data_index.
       bind (lookup (sigs_data_buf self) (seg_index, global_index)) (\<lambda>data_buf.
         fill_column (get_chunk data_index data_buf dt sample_per_chunk i_start i_stop bl0 bl1)
           (py_range bl0 bl1) 0 (replicate (nat (i_stop - i_start)) (zero_elem dt))))"

text \<open>
  Lines 372 to 381: the channels of the stream, as positions in the header's channel
  table, then the caller's selection among them (\<open>None\<close> selects all; a list of
  indices is numpy's integer-array indexing).
\<close>

definition select_channels :: "header \<Rightarrow> nat \<Rightarrow> int list option \<Rightarrow> error + nat list" where
  "select_channels h stream_index channel_indexes =
     bind (py_index (signal_streams h) (int stream_index)) (\<lambda>stream.
       let stream_id = snd stream;
           all_channels = signal_channels h;
           in_stream = filter (\<lambda>i. sc_stream_id (all_channels ! i) = stream_id)
                         [0..<length all_channels]
       in case channel_indexes of
            None \<Rightarrow> Inr in_stream
          | Some idx \<Rightarrow> mapM (py_index in_stream) idx)"

definition get_analogsignal_chunk ::
  "tdtrawio \<Rightarrow> nat \<Rightarrow> nat \<Rightarrow> int option \<Rightarrow> int option \<Rightarrow> nat \<Rightarrow> int list option
     \<Rightarrow> error + ndarray" where
  "get_analogsignal_chunk self block_index seg_index i_start_arg i_stop_arg stream_index
       channel_indexes =
     (let i_start = (case i_start_arg of None \<Rightarrow> 0 | Some a \<Rightarrow> a) in
      bind (case i_stop_arg of
              None \<Rightarrow> lookup (sigs_lengths self) (seg_index, stream_index)
            | Some b \<Rightarrow> Inr b) (\<lambda>i_stop.
      bind (get_header self) (\<lambda>h.
      bind (select_channels h stream_index channel_indexes) (\<lambda>global_chan_indexes.
      bind (lookup (sig_dtype_by_group self) stream_index) (\<lambda>dt.
      bind (if i_stop - i_start < 0 then Inl ValueError else Inr ()) (\<lambda>_.
      bind (lookup (sig_sample_per_chunk self) stream_index) (\<lambda>sample_per_chunk.
        let bl0 = i_start div sample_per_chunk in
      bind (ceil_div i_stop sample_per_chunk) (\<lambda>bl1.
      bind (mapM (read_column self seg_index dt sample_per_chunk i_start i_stop bl0 bl1)
              global_chan_indexes) (\<lambda>cols.
        Inr \<lparr>nrows = nat (i_stop - i_start), elem_type = dt, columns = cols\<rparr>)))))))))"

subsection \<open>Paths and the world outside\<close>

text \<open>
  A path is its text, with \<open>/\<close> between components. \<open>path_name\<close>, \<open>path_suffix\<close>,
  \<open>path_stem\<close>, \<open>path_parent\<close>, \<open>with_suffix\<close> and \<open>join\<close> are the operations of
  \<^verbatim>\<open>pathlib.Path\<close> the reader uses: the suffix of a name starts at its last dot, unless
  that dot is the first or the last character of the name.
\<close>

definition path_name :: "string \<Rightarrow> string" where
  "path_name p = rev (takeWhile (\<lambda>c. c \<noteq> CHR ''/'') (rev p))"

definition path_suffix :: "string \<Rightarrow> string" where
  "path_suffix p =
     (let name = path_name p;
          ext = rev (takeWhile (\<lambda>c. c \<noteq> CHR ''.'') (rev name))
      in if 0 < length ext \<and> length ext + 1 < length name then CHR ''.'' # ext else [])"

definition path_stem :: "string \<Rightarrow> string" where
  "path_stem p = take (length (path_name p) - length (path_suffix p)) (path_name p)"

definition path_parent :: "string \<Rightarrow> string" where
  "path_parent p =
     (if CHR ''/'' \<in> set p then rev (drop 1 (dropWhile (\<lambda>c. c \<noteq> CHR ''/'') (rev p)))
      else ''.'')"

definition with_suffix :: "string \<Rightarrow> string \<Rightarrow> string" where
  "with_suffix p s = take (length p - length (path_suffix p)) p @ s"

definition join :: "string \<Rightarrow> string \<Rightarrow> string" where
  "join p q = p @ ''/'' @ q"

definition to_lower :: "char \<Rightarrow> char" where
  "to_lower c =
     (if (65 :: nat) \<le> of_char c \<and> of_char c \<le> (90 :: nat)
      then char_of (of_char c + (32 :: nat)) else c)"

definition endswith :: "string \<Rightarrow> string \<Rightarrow> bool" where
  "endswith s t = (length t \<le> length s \<and> drop (length s - length t) s = t)"

text \<open>\<^verbatim>\<open>str(b)\<close> of a bytes object of printable characters.\<close>

definition str_bytes :: "string \<Rightarrow> string" where
  "str_bytes b = ''b'' @ [CHR 0x27] @ b @ [CHR 0x27]"

text \<open>
  What the reader asks of the file system and of numpy. The decoding of the index file
  (\<^verbatim>\<open>np.fromfile\<close> with \<^verbatim>\<open>tsq_dtype\<close>) and of the descriptor file
  (\<^verbatim>\<open>read_tbk\<close>) is not modelled: their results are given per path. \<^verbatim>\<open>np.argsort\<close>
  is the library's; the properties below say what they assume of it.
\<close>

record env =
  is_dir :: "string \<Rightarrow> bool"
  is_file :: "string \<Rightarrow> bool"
  exists :: "string \<Rightarrow> bool"
  iterdir :: "string \<Rightarrow> string list"
  read_tbk :: "string \<Rightarrow> error + channel_group list"
  memmap :: "string \<Rightarrow> error + byte list"
  fromfile_tsq :: "string \<Rightarrow> error + tsq_record list"
  listdir :: "string \<Rightarrow> error + string list"
  fromfile_int8 :: "string \<Rightarrow> error + 8 word list"
  glob :: "string \<Rightarrow> string \<Rightarrow> string list"
  argsort :: "float64 list \<Rightarrow> nat list"

fun foldM :: "('s \<Rightarrow> 'a \<Rightarrow> error + 's) \<Rightarrow> 'a list \<Rightarrow> 's \<Rightarrow> error + 's" where
  "foldM f [] s = Inr s"
| "foldM f (x # xs) s = bind (f s x) (foldM f xs)"

subsection \<open>The constructor\<close>

text \<open>Lines 56 to 67. The object starts with no header and empty tables.\<close>

definition new_reader :: "string \<Rightarrow> block_mode \<Rightarrow> string \<Rightarrow> tdtrawio" where
  "new_reader d m s =
     \<lparr>dirname = d, tdt_block_mode = m, sortname = s, tev_datas = [], tsq = [],
      seg_t_starts = [], seg_t_stops = [], global_t_start = NaN,
      sigs_data_buf = Map.empty, sigs_index = Map.empty, sig_dtype_by_group = Map.empty,
      sig_sample_per_chunk = Map.empty, sigs_lengths = Map.empty, sigs_t_start = Map.empty,
      internal_unit_ids = [], waveforms_size = [], waveforms_dtype = [], header = None\<rparr>"

definition init :: "env \<Rightarrow> string \<Rightarrow> string \<Rightarrow> error + tdtrawio" where
  "init e d s =
     (if is_dir e d then Inr (new_reader d Multi s)
      else if is_file e d then Inr (new_reader (with_suffix d []) Single s)
      else Inl ValueError)"

definition get_filestem :: "tdtrawio \<Rightarrow> string \<Rightarrow> string" where
  "get_filestem self segment_name =
     (case tdt_block_mode self of
        Multi \<Rightarrow> join (join (dirname self) segment_name)
                   (path_name (dirname self) @ ''_'' @ segment_name)
      | Single \<Rightarrow> dirname self)"

subsection \<open>Finding the segments\<close>

definition is_tdtblock :: "env \<Rightarrow> string \<Rightarrow> bool" where
  "is_tdtblock e blockpath =
     (let file_ext = (if is_dir e blockpath
                      then map (\<lambda>file. map to_lower (path_suffix file)) (iterdir e blockpath)
                      else [])
      in list_all (\<lambda>x. x \<in> set file_ext) [''.tbk'', ''.tdx'', ''.tev'', ''.tsq''])"

text \<open>Lines 79 to 89: directory order in multi mode, at most one segment otherwise.\<close>

definition find_segments :: "env \<Rightarrow> tdtrawio \<Rightarrow> string list" where
  "find_segments e self =
     (case tdt_block_mode self of
        Multi \<Rightarrow> map path_stem
                   (filter (is_tdtblock e) (map (join (dirname self)) (iterdir e (dirname self))))
      | Single \<Rightarrow> if is_tdtblock e (path_parent (dirname self))
                  then [path_stem (dirname self)] else [])"

subsection \<open>Channel descriptors of every segment\<close>

text \<open>
  \<^verbatim>\<open>np.array_equal\<close> on two descriptor arrays: the same length and every field of
  every entry equal, where a NaN sample rate is unequal to itself.
\<close>

definition group_equal :: "channel_group \<Rightarrow> channel_group \<Rightarrow> bool" where
  "group_equal a b =
     (StoreName a = StoreName b \<and> HeadName a = HeadName b \<and> Enabled a = Enabled b \<and>
      CircType a = CircType b \<and> NumChan a = NumChan b \<and> StrobeMode a = StrobeMode b \<and>
      TankEvType a = TankEvType b \<and> NumPoints a = NumPoints b \<and>
      DataFormat a = DataFormat b \<and> float_eq (SampleFreq a) (SampleFreq b))"

definition array_equal :: "channel_group list \<Rightarrow> channel_group list \<Rightarrow> bool" where
  "array_equal xs ys = (length xs = length ys \<and> list_all2 group_equal xs ys)"

text \<open>
  Lines 96 to 106: the descriptor file of each segment is read in turn; the first result
  is kept and every later one must equal it.
\<close>

fun check_tbk ::
  "(string \<Rightarrow> error + channel_group list) \<Rightarrow> string list \<Rightarrow> channel_group list option
     \<Rightarrow> error + channel_group list option" where
  "check_tbk rd [] info_channel_groups = Inr info_channel_groups"
| "check_tbk rd (segment_name # rest) info_channel_groups =
     bind (rd segment_name) (\<lambda>info.
       case info_channel_groups of
         None \<Rightarrow> check_tbk rd rest (Some info)
       | Some first \<Rightarrow>
           if array_equal first info then check_tbk rd rest info_channel_groups
           else Inl AssertionError)"

definition segment_tbk :: "env \<Rightarrow> tdtrawio \<Rightarrow> string \<Rightarrow> error + channel_group list" where
  "segment_tbk e self segment_name =
     read_tbk e (with_suffix (get_filestem self segment_name) ''.Tbk'')"

definition load_tbk :: "env \<Rightarrow> tdtrawio \<Rightarrow> string list \<Rightarrow> error + channel_group list option" where
  "load_tbk e self segment_names = check_tbk (segment_tbk e self) segment_names None"

text \<open>Lines 109 to 116: the multiplexed data file of each segment, if there is one.\<close>

definition load_tev :: "env \<Rightarrow> tdtrawio \<Rightarrow> string list \<Rightarrow> error + byte list option list" where
  "load_tev e self segment_names =
     mapM (\<lambda>n. let tev_filename = with_suffix (get_filestem self n) ''.tev''
                in if exists e tev_filename
                   then bind (memmap e tev_filename) (\<lambda>d. Inr (Some d))
                   else Inr None) segment_names"

subsection \<open>The index of every segment\<close>

text \<open>
  Lines 128 to 137: the start time is in the second record and the stop time in the last
  one, each under its marker name; a record with another name gives NaN. The markers are
  \<^verbatim>\<open>chr(EVMARK_STARTBLOCK).encode()\<close> and \<^verbatim>\<open>chr(EVMARK_STOPBLOCK).encode()\<close>.
\<close>

definition segment_times :: "tsq_record list \<Rightarrow> error + float64 \<times> float64" where
  "segment_times recs =
     bind (py_index recs 1) (\<lambda>second.
       let t_start = (if evname second = [char_of EVMARK_STARTBLOCK]
                      then timestamp second else NaN)
       in bind (py_index recs (- 1)) (\<lambda>final.
            let t_stop = (if evname final = [char_of EVMARK_STOPBLOCK]
                          then timestamp final else NaN)
            in Inr (t_start, t_stop)))"

text \<open>
  \<^verbatim>\<open>tsq['sortcode'][1:-1] = newsortcode\<close>: the int8 labels are cast to the uint16
  field of the records between the first and the last; numpy accepts as many labels as
  there are such records, or a single label, and raises ValueError otherwise.
\<close>

definition set_sortcodes :: "tsq_record list \<Rightarrow> 8 word list \<Rightarrow> error + tsq_record list" where
  "set_sortcodes recs newsortcode =
     (let inner = py_slice recs (Some 1) (Some (- 1));
          k = length inner
      in if length newsortcode = k
         then Inr (take 1 recs @
                   map (\<lambda>(r, c). r\<lparr>sortcode := scast c\<rparr>) (zip inner newsortcode) @
                   drop (1 + k) recs)
         else if length newsortcode = 1
         then Inr (take 1 recs @
                   map (\<lambda>r. r\<lparr>sortcode := scast (hd newsortcode)\<rparr>) inner @
                   drop (1 + k) recs)
         else Inl ValueError)"

text \<open>
  Lines 141 to 158: the first \<^verbatim>\<open>.SortResult\<close> file of the sort directory replaces the
  labels, after its header of 1024 bytes. Only an OSError is caught.
\<close>

definition sort_dir :: "tdtrawio \<Rightarrow> string" where
  "sort_dir self =
     (let path = (case tdt_block_mode self of
                    Multi \<Rightarrow> dirname self | Single \<Rightarrow> path_parent (dirname self))
      in join (join path ''sort'') (sortname self))"

definition sort_overlay :: "env \<Rightarrow> tdtrawio \<Rightarrow> tsq_record list \<Rightarrow> error + tsq_record list" where
  "sort_overlay e self recs =
     (let attempt =
            bind (listdir e (sort_dir self)) (\<lambda>files.
              case find (\<lambda>file. endswith file ''.SortResult'') files of
                None \<Rightarrow> Inr recs
              | Some file \<Rightarrow>
                  bind (fromfile_int8 e (join (sort_dir self) file)) (\<lambda>codes.
                    set_sortcodes recs (drop 1024 codes)))
      in case attempt of Inl err \<Rightarrow> (if err = OSError then Inr recs else Inl err)
                       | Inr recs' \<Rightarrow> Inr recs')"

text \<open>Lines 122 to 158 for one segment: its records, start time and stop time.\<close>

definition segment_tsq :: "env \<Rightarrow> tdtrawio \<Rightarrow> string \<Rightarrow> error + tsq_record list" where
  "segment_tsq e self segment_name =
     fromfile_tsq e (with_suffix (get_filestem self segment_name) ''.tsq'')"

definition load_tsq ::
  "env \<Rightarrow> tdtrawio \<Rightarrow> string \<Rightarrow> error + tsq_record list \<times> float64 \<times> float64" where
  "load_tsq e self segment_name =
     bind (segment_tsq e self segment_name) (\<lambda>recs.
       bind (segment_times recs) (\<lambda>times.
         bind (if sortname self \<noteq> [] then sort_overlay e self recs else Inr recs) (\<lambda>recs'.
           Inr (recs', fst times, snd times))))"

definition load_index :: "env \<Rightarrow> tdtrawio \<Rightarrow> string list \<Rightarrow> error + tdtrawio" where
  "load_index e self segment_names =
     bind (mapM (load_tsq e self) segment_names) (\<lambda>loaded.
       Inr (self\<lparr>tsq := map fst loaded,
                 seg_t_starts := map (\<lambda>x. fst (snd x)) loaded,
                 seg_t_stops := map (\<lambda>x. snd (snd x)) loaded\<rparr>))"

subsection \<open>Ordering the segments\<close>

text \<open>
  Lines 161 to 168: when \<^verbatim>\<open>np.argsort\<close> of the start times is not the identity, every
  per-segment list is replaced by its elements at the sorted positions.
\<close>

definition take_at :: "'a list \<Rightarrow> nat list \<Rightarrow> error + 'a list" where
  "take_at xs inds = mapM (\<lambda>x. py_index xs (int x)) inds"

definition reorder_segments ::
  "env \<Rightarrow> tdtrawio \<Rightarrow> string list \<Rightarrow> error + tdtrawio \<times> string list" where
  "reorder_segments e self segment_names =
     (let sort_inds = argsort e (seg_t_starts self) in
      bind (if sort_inds \<noteq> [0..<length segment_names]
            then bind (take_at segment_names sort_inds) (\<lambda>names.
                 bind (take_at (tev_datas self) sort_inds) (\<lambda>tevs.
                 bind (take_at (seg_t_starts self) sort_inds) (\<lambda>starts.
                 bind (take_at (seg_t_stops self) sort_inds) (\<lambda>stops.
                 bind (take_at (tsq self) sort_inds) (\<lambda>tsqs.
                   Inr (self\<lparr>tev_datas := tevs, seg_t_starts := starts,
                            seg_t_stops := stops, tsq := tsqs\<rparr>, names))))))
            else Inr (self, segment_names)) (\<lambda>(self', names).
      bind (py_index (seg_t_starts self') 0) (\<lambda>t0.
        Inr (self'\<lparr>global_t_start := t0\<rparr>, names))))"

subsection \<open>Indexing the stream channels\<close>

text \<open>
  \<^verbatim>\<open>info['NumPoints'] * data_index.size\<close> is a product of an int64 and wraps around.
\<close>

definition wrap64 :: "int \<Rightarrow> int" where
  "wrap64 x = (x + 2 ^ 63) mod 2 ^ 64 - 2 ^ 63"

text \<open>Lines 201 to 204: the records of one channel of a stream store.\<close>

definition stream_mask :: "channel_group \<Rightarrow> nat \<Rightarrow> tsq_record \<Rightarrow> bool" where
  "stream_mask info chan_id r =
     ((evtype r = EVTYPE_STREAM \<or> evtype r = EVTYPE_STREAM_VARIANT) \<and>
      evname r = StoreName info \<and> channel r = chan_id)"

text \<open>
  The local variables of the indexing pass beside the object: the stream and channel
  tables of the header and the channels without a data file of their own.
\<close>

record indexing =
  ix_self :: tdtrawio
  ix_streams :: "(string \<times> string) list"
  ix_channels :: "signal_channel list"
  ix_missing :: "nat list"

text \<open>
  Lines 246 to 266: the name of the channel's own data file, if one is to be tried. In
  multi mode the directory is the variable \<^verbatim>\<open>path\<close> as the earlier loops left it: the
  tank directory when a sort name was given, else the last entry of the tank directory.
\<close>

definition resolve_sev ::
  "env \<Rightarrow> tdtrawio \<Rightarrow> string \<Rightarrow> channel_group \<Rightarrow> nat \<Rightarrow> nat list \<Rightarrow> nat list \<times> string option" where
  "resolve_sev e self segment_name info chan_id missing =
     (case tdt_block_mode self of
        Multi \<Rightarrow>
          (let path = (if sortname self \<noteq> [] then dirname self
                       else join (dirname self) (last (iterdir e (dirname self))));
               sev_stem = path_stem (dirname self) @ ''_'' @ segment_name @ ''_'' @
                          StoreName info @ ''_ch'' @ str_nat chan_id
           in (missing, Some (with_suffix (join path sev_stem) ''.sev'')))
      | Single \<Rightarrow>
          (let parent = path_parent (dirname self);
               found = glob e parent (''*_[cC]h'' @ str_nat chan_id @ ''.sev'');
               found' = (if 1 < length found
                         then glob e parent (''*_'' @ StoreName info @ ''_Ch'' @
                                str_nat chan_id @ ''.sev'')
                         else found)
           in if length found' \<noteq> 1 then (missing @ [chan_id], None)
              else (missing, Some (hd found'))))"

text \<open>
  Lines 208 to 212: the first channel of a stream to reach a segment records the sample
  count; every later channel must come to the same count.
\<close>

definition check_length :: "tdtrawio \<Rightarrow> nat \<times> nat \<Rightarrow> int \<Rightarrow> error + tdtrawio" where
  "check_length self key n =
     (case sigs_lengths self key of
        None \<Rightarrow> Inr (self\<lparr>sigs_lengths := (sigs_lengths self)(key \<mapsto> n)\<rparr>)
      | Some l \<Rightarrow> if l = n then Inr self else Inl AssertionError)"

text \<open>
  Lines 215 to 223: the signal starts with its first chunk, or with the segment when it
  has no chunk; the start is recorded or compared in the same way.
\<close>

definition signal_t_start :: "tdtrawio \<Rightarrow> nat \<Rightarrow> tsq_record list \<Rightarrow> error + float64" where
  "signal_t_start self seg_index data_index =
     (case data_index of
        [] \<Rightarrow> py_index (seg_t_starts self) (int seg_index)
      | r # _ \<Rightarrow> Inr (timestamp r))"

definition check_t_start :: "tdtrawio \<Rightarrow> nat \<times> nat \<Rightarrow> float64 \<Rightarrow> error + tdtrawio" where
  "check_t_start self key t_start =
     (case sigs_t_start self key of
        None \<Rightarrow> Inr (self\<lparr>sigs_t_start := (sigs_t_start self)(key \<mapsto> t_start)\<rparr>)
      | Some t \<Rightarrow> if float_eq t t_start then Inr self else Inl AssertionError)"

text \<open>
  Lines 226 to 232: sampling rate and element type of the first chunk, or the
  placeholders of a channel without chunks.
\<close>

definition channel_format :: "tsq_record list \<Rightarrow> error + float64 \<times> dtype" where
  "channel_format data_index =
     (case data_index of
        [] \<Rightarrow> Inr (Val 1, PyInt)
      | r # _ \<Rightarrow> bind (data_formats (dataformat r)) (\<lambda>d. Inr (frequency r, d)))"

text \<open>
  Lines 233 to 242: the first segment of a channel sets its rate and type, and the type
  of the stream unless an earlier channel did; later segments must agree.
\<close>

definition check_rate ::
  "tdtrawio \<Rightarrow> nat \<Rightarrow> (float64 \<times> dtype) option \<Rightarrow> float64 \<times> dtype
     \<Rightarrow> error + tdtrawio \<times> (float64 \<times> dtype) option" where
  "check_rate self stream_index rate found =
     (case rate of
        None \<Rightarrow>
          (case sig_dtype_by_group self stream_index of
             None \<Rightarrow> Inr (self\<lparr>sig_dtype_by_group :=
                        (sig_dtype_by_group self)(stream_index \<mapsto> snd found)\<rparr>, Some found)
           | Some d \<Rightarrow> if d = snd found then Inr (self, Some found) else Inl AssertionError)
      | Some known \<Rightarrow>
          if \<not> float_eq (fst known) (fst found) then Inl AssertionError
          else if snd known \<noteq> snd found then Inl AssertionError
          else Inr (self, rate))"

text \<open>
  Lines 268 to 272: the channel's own file when it exists, else the multiplexed file of
  the segment, which must exist then.
\<close>

definition channel_buffer :: "env \<Rightarrow> tdtrawio \<Rightarrow> nat \<Rightarrow> string option \<Rightarrow> error + byte list" where
  "channel_buffer e self seg_index sev_filename =
     bind (case sev_filename of
             Some f \<Rightarrow> if exists e f then bind (memmap e f) (\<lambda>d. Inr (Some d))
                       else py_index (tev_datas self) (int seg_index)
           | None \<Rightarrow> py_index (tev_datas self) (int seg_index)) (\<lambda>data.
       case data of None \<Rightarrow> Inl AssertionError | Some buf \<Rightarrow> Inr buf)"

text \<open>
  Lines 199 to 273: one channel in one segment. \<open>rate\<close> holds the sampling rate and
  element type of the channel once a segment has set them.
\<close>

definition index_segment ::
  "env \<Rightarrow> channel_group \<Rightarrow> nat \<Rightarrow> nat \<Rightarrow> nat \<Rightarrow> indexing \<times> (float64 \<times> dtype) option
     \<Rightarrow> nat \<times> string \<Rightarrow> error + indexing \<times> (float64 \<times> dtype) option" where
  "index_segment e info stream_index chan_id global_chan_index st seg =
     (let ix = fst st; rate = snd st; seg_index = fst seg; segment_name = snd seg;
          self = ix_self ix in
      bind (py_index (tsq self) (int seg_index)) (\<lambda>recs.
        let data_index = filter (stream_mask info chan_id) recs;
            self1 = self\<lparr>sigs_index :=
                      (sigs_index self)((seg_index, global_chan_index) \<mapsto> data_index)\<rparr>;
            size = wrap64 (NumPoints info * int (length data_index)) in
      bind (check_length self1 (seg_index, stream_index) size) (\<lambda>self2.
      bind (signal_t_start self2 seg_index data_index) (\<lambda>t_start.
      bind (check_t_start self2 (seg_index, stream_index) t_start) (\<lambda>self3.
      bind (channel_format data_index) (\<lambda>found.
      bind (check_rate self3 stream_index rate found) (\<lambda>set_rate.
        let self4 = fst set_rate;
            sev = resolve_sev e self4 segment_name info chan_id (ix_missing ix) in
      bind (channel_buffer e self4 seg_index (snd sev)) (\<lambda>buf.
        Inr (ix\<lparr>ix_self := self4\<lparr>sigs_data_buf :=
                   (sigs_data_buf self4)((seg_index, global_chan_index) \<mapsto> buf)\<rparr>,
                 ix_missing := fst sev\<rparr>, snd set_rate)))))))))"

text \<open>
  Lines 191 to 281: one channel \<open>c\<close> of a stream across the segments, then its entry in
  the channel table.
\<close>

definition index_channel ::
  "env \<Rightarrow> string list \<Rightarrow> channel_group \<Rightarrow> nat \<Rightarrow> indexing \<Rightarrow> nat \<Rightarrow> error + indexing" where
  "index_channel e segment_names info stream_index ix c =
     (let global_chan_index = length (ix_channels ix);
          chan_id = c + 1 in
      bind (foldM (index_segment e info stream_index chan_id global_chan_index)
              (enumerate 0 segment_names) (ix, None)) (\<lambda>done.
        case snd done of
          None \<Rightarrow> Inl TypeError
        | Some rate \<Rightarrow>
            Inr ((fst done)\<lparr>ix_channels := ix_channels (fst done) @
                   [\<lparr>sc_name = str_bytes (StoreName info) @ '' '' @ str_nat (c + 1),
                     sc_id = str_nat chan_id, sc_sampling_rate = fst rate,
                     sc_dtype = snd rate, sc_units = ''V'', sc_gain = Val 1,
                     sc_offset = Val 0, sc_stream_id = str_nat stream_index\<rparr>]\<rparr>)))"

text \<open>Lines 184 to 191: one stream store and its channels.\<close>

definition index_stream ::
  "env \<Rightarrow> string list \<Rightarrow> indexing \<Rightarrow> nat \<times> channel_group \<Rightarrow> error + indexing" where
  "index_stream e segment_names ix entry =
     (let stream_index = fst entry; info = snd entry;
          self = ix_self ix;
          ix1 = ix\<lparr>ix_self := self\<lparr>sig_sample_per_chunk :=
                     (sig_sample_per_chunk self)(stream_index \<mapsto> NumPoints info)\<rparr>,
                   ix_streams := ix_streams ix @
                     [(str_bytes (StoreName info), str_nat stream_index)]\<rparr>
      in foldM (index_channel e segment_names info stream_index)
           [0..<nat (NumChan info)] ix1)"

text \<open>Lines 171 to 184: the tables start empty; the stores of stream type are indexed.\<close>

definition index_streams ::
  "env \<Rightarrow> tdtrawio \<Rightarrow> string list \<Rightarrow> channel_group list \<Rightarrow> error + indexing" where
  "index_streams e self segment_names info_channel_groups =
     foldM (index_stream e segment_names)
       (enumerate 0 (filter (\<lambda>info. TankEvType info = EVTYPE_STREAM) info_channel_groups))
       \<lparr>ix_self = self\<lparr>sigs_data_buf := Map.empty, sigs_index := Map.empty,
                     sig_dtype_by_group := Map.empty, sig_sample_per_chunk := Map.empty,
                     sigs_lengths := Map.empty, sigs_t_start := Map.empty\<rparr>,
        ix_streams = [], ix_channels = [], ix_missing = []\<rparr>"

subsection \<open>Units, event channels and the header\<close>

text \<open>
  Lines 298 to 320: for every channel of a snippet store, one unit per sort code found
  among its records of all segments, in increasing order (\<^verbatim>\<open>np.unique\<close>).
\<close>

definition snip_mask :: "channel_group \<Rightarrow> nat \<Rightarrow> tsq_record \<Rightarrow> bool" where
  "snip_mask info chan_id r =
     (evtype r = EVTYPE_SNIP \<and> evname r = StoreName info \<and> channel r = chan_id)"

record units =
  un_ids :: "(string \<times> nat \<times> 16 word) list"
  un_sizes :: "int list"
  un_dtypes :: "dtype list"
  un_channels :: "spike_channel list"

definition add_unit :: "channel_group \<Rightarrow> nat \<Rightarrow> units \<Rightarrow> 16 word \<Rightarrow> error + units" where
  "add_unit info chan_id u unit_id =
     bind (data_formats (DataFormat info)) (\<lambda>dt.
       Inr \<lparr>un_ids = un_ids u @ [(StoreName info, chan_id, unit_id)],
            un_sizes = un_sizes u @ [NumPoints info],
            un_dtypes = un_dtypes u @ [dt],
            un_channels = un_channels u @
              [\<lparr>sp_name = ''ch'' @ str_nat chan_id @ ''#'' @ str_nat (unat unit_id),
                sp_id = str_nat (unat unit_id), sp_wf_units = ''V'', sp_wf_gain = Val 1,
                sp_wf_offset = Val 0, sp_wf_left_sweep = NumPoints info div 2,
                sp_wf_sampling_rate = SampleFreq info\<rparr>]\<rparr>)"

definition find_units :: "channel_group list \<Rightarrow> tsq_record list \<Rightarrow> error + units" where
  "find_units info_channel_groups all_recs =
     foldM (\<lambda>u info.
        foldM (\<lambda>u' c.
           foldM (add_unit info (c + 1)) 
             (sort (remdups (map sortcode (filter (snip_mask info (c + 1)) all_recs)))) u')
          [0..<nat (NumChan info)] u)
       (filter (\<lambda>info. TankEvType info = EVTYPE_SNIP) info_channel_groups)
       \<lparr>un_ids = [], un_sizes = [], un_dtypes = [], un_channels = []\<rparr>"

text \<open>Lines 325 to 330: one event channel per onset store, always with id 1.\<close>

definition find_event_channels :: "channel_group list \<Rightarrow> event_channel list" where
  "find_event_channels info_channel_groups =
     map (\<lambda>info. \<lparr>ev_name = StoreName info, ev_id = 1, ev_type = ''event''\<rparr>)
       (filter (\<lambda>info. TankEvType info = EVTYPE_STRON) info_channel_groups)"

subsection \<open>\<^verbatim>\<open>_parse_header\<close> and opening a recording\<close>

text \<open>
  The passes in the order of the source. Without a segment no descriptor was read, and
  the global start time is asked of an empty list.
\<close>

definition parse_header :: "env \<Rightarrow> tdtrawio \<Rightarrow> error + tdtrawio" where
  "parse_header e self =
     (let segment_names = find_segments e self in
      bind (load_tbk e self segment_names) (\<lambda>info_opt.
      bind (load_tev e self segment_names) (\<lambda>tevs.
      bind (load_index e (self\<lparr>tev_datas := tevs\<rparr>) segment_names) (\<lambda>self1.
      bind (reorder_segments e self1 segment_names) (\<lambda>ordered.
      bind (case info_opt of None \<Rightarrow> Inl TypeError | Some infos \<Rightarrow> Inr infos) (\<lambda>infos.
      bind (index_streams e (fst ordered) (snd ordered) infos) (\<lambda>ix.
      bind (find_units infos (concat (tsq (ix_self ix)))) (\<lambda>u.
        Inr ((ix_self ix)
          \<lparr>internal_unit_ids := un_ids u, waveforms_size := un_sizes u,
           waveforms_dtype := un_dtypes u,
           header := Some \<lparr>nb_block = 1, nb_segment = [length segment_names],
             signal_streams = ix_streams ix, signal_channels = ix_channels ix,
             spike_channels = un_channels u,
             event_channels = find_event_channels infos\<rparr>\<rparr>)))))))))"

text \<open>Opening: the constructor, then the header pass on the new object.\<close>

definition open_tdt :: "env \<Rightarrow> string \<Rightarrow> string \<Rightarrow> error + tdtrawio" where
  "open_tdt e d s = bind (init e d s) (parse_header e)"

subsection \<open>Events\<close>

fun float_le :: "float64 \<Rightarrow> float64 \<Rightarrow> bool" where
  "float_le (Val a) (Val b) = (a \<le> b)"
| "float_le _ _ = False"

fun float_add :: "float64 \<Rightarrow> float64 \<Rightarrow> float64" where
  "float_add (Val a) (Val b) = Val (a + b)"
| "float_add _ _ = NaN"

text \<open>\<^verbatim>\<open>_get_mask\<close>, lines 421 to 434, as a predicate on one record.\<close>

definition get_mask ::
  "tdtrawio \<Rightarrow> int \<Rightarrow> string \<Rightarrow> nat \<Rightarrow> 16 word option \<Rightarrow> float64 option \<Rightarrow> float64 option
     \<Rightarrow> tsq_record \<Rightarrow> bool" where
  "get_mask self ev name chan_id unit_id t_start t_stop r =
     (evtype r = ev \<and> evname r = name \<and> channel r = chan_id \<and>
      (case unit_id of None \<Rightarrow> True | Some u \<Rightarrow> sortcode r = u) \<and>
      (case t_start of None \<Rightarrow> True
       | Some t \<Rightarrow> float_le (float_add t (global_t_start self)) (timestamp r)) \<and>
      (case t_stop of None \<Rightarrow> True
       | Some t \<Rightarrow> float_le (timestamp r) (float_add t (global_t_start self))))"

text \<open>
  The records of an event channel in a segment, lines 479 to 483 and 488 to 492: the
  channel's name is looked up in the header, and the mask asks for channel number 0.
\<close>

definition event_records :: "tdtrawio \<Rightarrow> nat \<Rightarrow> nat \<Rightarrow> error + tsq_record list" where
  "event_records self seg_index event_channel_index =
     bind (get_header self) (\<lambda>hdr.
       bind (py_index (event_channels hdr) (int event_channel_index)) (\<lambda>h.
         bind (py_index (tsq self) (int seg_index)) (\<lambda>recs.
           let chan_id = 0
           in Inr (filter (get_mask self EVTYPE_STRON (ev_name h) chan_id None None None)
                     recs))))"

definition event_count :: "tdtrawio \<Rightarrow> nat \<Rightarrow> nat \<Rightarrow> nat \<Rightarrow> error + nat" where
  "event_count self block_index seg_index event_channel_index =
     bind (event_records self seg_index event_channel_index) (\<lambda>sel. Inr (length sel))"

text \<open>
  \<^verbatim>\<open>_get_event_timestamps\<close>: the time limits are not passed on to the mask; there are
  no durations; the labels are the offsets as text.
\<close>

definition get_event_timestamps ::
  "tdtrawio \<Rightarrow> nat \<Rightarrow> nat \<Rightarrow> nat \<Rightarrow> float64 option \<Rightarrow> float64 option
     \<Rightarrow> error + float64 list \<times> unit option \<times> string list" where
  "get_event_timestamps self block_index seg_index event_channel_index t_start t_stop =
     bind (event_records self seg_index event_channel_index) (\<lambda>sel.
       Inr (map (\<lambda>r. float_sub (timestamp r) (global_t_start self)) sel,
            None,
            map (\<lambda>r. str_int (offset r)) sel))"

section \<open>Notions used to state the properties\<close>

subsection \<open>Chunks of a channel\<close>

text \<open>
  The samples of the chunk that the index record \<open>r\<close> points at: \<open>spc\<close> elements of
  type \<open>dt\<close>, starting at the byte offset of the record. The chunk lies in the buffer when
  all its bytes do. The samples of a channel are those of its chunks, in index order.
\<close>

definition chunk_elems :: "byte list \<Rightarrow> dtype \<Rightarrow> int \<Rightarrow> tsq_record \<Rightarrow> elem list" where
  "chunk_elems data_buf dt spc r =
     chunks_of (itemsize dt)
       (take (nat spc * itemsize dt) (drop (nat (offset r)) data_buf))"

definition chunk_in_buffer :: "byte list \<Rightarrow> dtype \<Rightarrow> int \<Rightarrow> tsq_record \<Rightarrow> bool" where
  "chunk_in_buffer data_buf dt spc r =
     (0 \<le> offset r \<and> offset r + spc * int (itemsize dt) \<le> int (length data_buf))"

definition channel_samples :: "tsq_record list \<Rightarrow> byte list \<Rightarrow> dtype \<Rightarrow> int \<Rightarrow> elem list" where
  "channel_samples data_index data_buf dt spc =
     concat (map (chunk_elems data_buf dt spc) data_index)"

text \<open>
  What the reader keeps of chunk \<open>bl\<close>, whose index record is \<open>r\<close>: the last chunk
  \<open>bl1 - 1\<close> loses the samples from \<open>i_stop mod spc\<close> on unless \<open>i_stop\<close> is a multiple
  of the chunk size, then the first chunk \<open>bl0\<close> loses its first \<open>i_start mod spc\<close>
  samples.
\<close>

definition piece ::
  "byte list \<Rightarrow> dtype \<Rightarrow> int \<Rightarrow> int \<Rightarrow> int \<Rightarrow> int \<Rightarrow> int \<Rightarrow> tsq_record \<Rightarrow> int \<Rightarrow> elem list" where
  "piece data_buf dt spc i_start i_stop bl0 bl1 r bl =
     (let c = chunk_elems data_buf dt spc r;
          d1 = (if bl = bl1 - 1 \<and> i_stop mod spc \<noteq> 0 then take (nat (i_stop mod spc)) c else c)
      in if bl = bl0 then drop (nat (i_start mod spc)) d1 else d1)"

text \<open>The same on a list of chunks that all have \<open>s\<close> elements, with natural numbers.\<close>

definition uniform :: "nat \<Rightarrow> 'a list list \<Rightarrow> bool" where
  "uniform s cs = (\<forall>c \<in> set cs. length c = s)"

definition cut_right :: "nat \<Rightarrow> nat \<Rightarrow> nat \<Rightarrow> 'a list list \<Rightarrow> nat \<Rightarrow> 'a list" where
  "cut_right s e m cs k =
     (if k + 1 = m \<and> e mod s \<noteq> 0 then take (e mod s) (cs ! k) else cs ! k)"

definition cut_both :: "nat \<Rightarrow> nat \<Rightarrow> nat \<Rightarrow> 'a list list \<Rightarrow> nat \<Rightarrow> 'a list" where
  "cut_both s a b cs k =
     (let c = cs ! k;
          d1 = (if k + 1 = (b + s - 1) div s \<and> b mod s \<noteq> 0 then take (b mod s) c else c)
      in if k = a div s then drop (a mod s) d1 else d1)"

subsection \<open>Well-formed channels of a stream\<close>

text \<open>
  The chunks of channel \<open>g\<close> in a segment, as the reader's tables give them. The channel
  is well formed for a read when its index and buffer exist, its length is the chunk size
  times its number of chunks, and every chunk lies in the buffer; the stream is when its
  element type, chunk size and length are recorded, the chunk size is positive and the
  channels read are well formed.
\<close>

definition channel_chunks :: "tdtrawio \<Rightarrow> nat \<Rightarrow> dtype \<Rightarrow> int \<Rightarrow> nat \<Rightarrow> elem list list" where
  "channel_chunks self seg_index dt spc g =
     (case (sigs_index self (seg_index, g), sigs_data_buf self (seg_index, g)) of
        (Some data_index, Some data_buf) \<Rightarrow> map (chunk_elems data_buf dt spc) data_index
      | _ \<Rightarrow> [])"

definition channel_ok :: "tdtrawio \<Rightarrow> nat \<Rightarrow> dtype \<Rightarrow> int \<Rightarrow> int \<Rightarrow> nat \<Rightarrow> bool" where
  "channel_ok self seg_index dt spc len g =
     (case (sigs_index self (seg_index, g), sigs_data_buf self (seg_index, g)) of
        (Some data_index, Some data_buf) \<Rightarrow>
          len = spc * int (length data_index) \<and>
          list_all (chunk_in_buffer data_buf dt spc) data_index
      | _ \<Rightarrow> False)"

definition stream_ok ::
  "tdtrawio \<Rightarrow> nat \<Rightarrow> nat \<Rightarrow> dtype \<Rightarrow> int \<Rightarrow> int \<Rightarrow> nat list \<Rightarrow> bool" where
  "stream_ok self seg_index stream_index dt spc len gs =
     (sig_dtype_by_group self stream_index = Some dt \<and>
      sig_sample_per_chunk self stream_index = Some spc \<and> 0 < spc \<and>
      sigs_lengths self (seg_index, stream_index) = Some len \<and>
      list_all (channel_ok self seg_index dt spc len) gs)"

text \<open>
  The part of chunk \<open>bl\<close> of channel \<open>g\<close> that a read of \<open>[a, b)\<close> keeps, with the
  first and last overlapping chunk numbers the reader computes.
\<close>

definition channel_piece ::
  "tdtrawio \<Rightarrow> nat \<Rightarrow> dtype \<Rightarrow> int \<Rightarrow> int \<Rightarrow> int \<Rightarrow> nat \<Rightarrow> int \<Rightarrow> elem list" where
  "channel_piece self seg_index dt spc a b g bl =
     (case (sigs_index self (seg_index, g), sigs_data_buf self (seg_index, g)) of
        (Some data_index, Some data_buf) \<Rightarrow>
          piece data_buf dt spc a b (a div spc) (- ((- b) div spc)) (data_index ! nat bl) bl
      | _ \<Rightarrow> [])"

text \<open>The reader's loop body applied to the tables of channel \<open>g\<close>.\<close>

definition channel_get_chunk ::
  "tdtrawio \<Rightarrow> nat \<Rightarrow> dtype \<Rightarrow> int \<Rightarrow> int \<Rightarrow> int \<Rightarrow> nat \<Rightarrow> int \<Rightarrow> error + elem list" where
  "channel_get_chunk self seg_index dt spc a b g bl =
     (case (sigs_index self (seg_index, g), sigs_data_buf self (seg_index, g)) of
        (Some data_index, Some data_buf) \<Rightarrow>
          get_chunk data_index data_buf dt spc a b (a div spc) (- ((- b) div spc)) bl
      | _ \<Rightarrow> Inl KeyError)"

subsection \<open>Sort overlay\<close>

text \<open>
  The index with the labels of an overlay file laid over it: record \<open>i\<close> between the
  first and the last takes the label byte \<open>1024 + (i - 1)\<close> of the file, cast to the
  width of the field; the first and the last record stay as they are.
\<close>

definition overlaid :: "tsq_record list \<Rightarrow> 8 word list \<Rightarrow> tsq_record list" where
  "overlaid recs codes =
     map (\<lambda>i. if i = 0 \<or> i = length recs - 1 then recs ! i
               else (recs ! i)\<lparr>sortcode := scast (codes ! (1024 + (i - 1)))\<rparr>)
       [0..<length recs]"

subsection \<open>Sample counts and segment order\<close>

text \<open>
  The sample count of channel \<open>chan_id\<close> of a stream store in segment \<open>seg\<close>, as the
  indexing pass computes it from the index tables \<open>tsqs\<close>.
\<close>

definition sample_count :: "tsq_record list list \<Rightarrow> channel_group \<Rightarrow> nat \<Rightarrow> nat \<Rightarrow> int" where
  "sample_count tsqs info chan_id seg =
     wrap64 (NumPoints info * int (length (filter (stream_mask info chan_id) (tsqs ! seg))))"

text \<open>
  A later state of the indexing pass: the index tables are the same and every length
  recorded before is still recorded.
\<close>

definition grows :: "tdtrawio \<Rightarrow> tdtrawio \<Rightarrow> bool" where
  "grows a b =
     (tsq b = tsq a \<and> (\<forall>k v. sigs_lengths a k = Some v \<longrightarrow> sigs_lengths b k = Some v))"

subsection \<open>Example recordings\<close>

text \<open>
  A stream record of store \<open>name\<close>, channel \<open>ch\<close>, whose chunk starts at byte \<open>off\<close>.
\<close>

definition stream_rec :: "string \<Rightarrow> nat \<Rightarrow> int \<Rightarrow> int \<Rightarrow> tsq_record" where
  "stream_rec name ch off fmt =
     \<lparr>rsize = 0, evtype = EVTYPE_STREAM, evname = name, channel = ch, sortcode = 0,
      timestamp = Val 0, offset = off, dataformat = fmt, frequency = Val 1000\<rparr>"

definition empty_reader :: tdtrawio where
  "empty_reader =
     \<lparr>dirname = [], tdt_block_mode = Single, sortname = [], tev_datas = [], tsq = [],
      seg_t_starts = [], seg_t_stops = [], global_t_start = NaN,
      sigs_data_buf = Map.empty, sigs_index = Map.empty, sig_dtype_by_group = Map.empty,
      sig_sample_per_chunk = Map.empty, sigs_lengths = Map.empty, sigs_t_start = Map.empty,
      internal_unit_ids = [], waveforms_size = [], waveforms_dtype = [], header = None\<rparr>"

definition wave_channel :: "nat \<Rightarrow> dtype \<Rightarrow> signal_channel" where
  "wave_channel c dt =
     \<lparr>sc_name = ''Wave '' @ str_nat c, sc_id = str_nat c, sc_sampling_rate = Val 1000,
      sc_dtype = dt, sc_units = ''V'', sc_gain = Val 1, sc_offset = Val 0,
      sc_stream_id = ''0''\<rparr>"

text \<open>
  One stream of one int8 channel with 256 samples per chunk and four chunks, stored back
  to back in a buffer of 1024 bytes.
\<close>

definition c1_index :: "tsq_record list" where
  "c1_index = map (\<lambda>k. stream_rec ''Wave'' 1 (256 * int k) 3) [0..<4]"

definition c1_buf :: "byte list" where
  "c1_buf = map of_nat [0..<1024]"

definition c1_reader :: tdtrawio where
  "c1_reader = empty_reader
     \<lparr>sigs_data_buf := [(0, 0) \<mapsto> c1_buf], sigs_index := [(0, 0) \<mapsto> c1_index],
      sig_dtype_by_group := [0 \<mapsto> Int8], sig_sample_per_chunk := [0 \<mapsto> 256],
      sigs_lengths := [(0, 0) \<mapsto> 1024],
      header := Some \<lparr>nb_block = 1, nb_segment = [1], signal_streams = [(''Wave'', ''0'')],
        signal_channels = [wave_channel 1 Int8], spike_channels = [], event_channels = []\<rparr>\<rparr>"

text \<open>
  One stream of two int16 channels with 4 samples per chunk and three chunks each, the
  chunks of the two channels interleaved in a buffer of 48 bytes.
\<close>

definition c2_index :: "nat \<Rightarrow> tsq_record list" where
  "c2_index c = map (\<lambda>k. stream_rec ''Wave'' c (16 * int k + 8 * (int c - 1)) 2) [0..<3]"

definition c2_buf :: "byte list" where
  "c2_buf = map of_nat [0..<48]"

definition c2_reader :: tdtrawio where
  "c2_reader = empty_reader
     \<lparr>sigs_data_buf := [(0, 0) \<mapsto> c2_buf, (0, 1) \<mapsto> c2_buf],
      sigs_index := [(0, 0) \<mapsto> c2_index 1, (0, 1) \<mapsto> c2_index 2],
      sig_dtype_by_group := [0 \<mapsto> Int16], sig_sample_per_chunk := [0 \<mapsto> 4],
      sigs_lengths := [(0, 0) \<mapsto> 12],
      header := Some \<lparr>nb_block = 1, nb_segment = [1], signal_streams = [(''Wave'', ''0'')],
        signal_channels = [wave_channel 1 Int16, wave_channel 2 Int16],
        spike_channels = [], event_channels = []\<rparr>\<rparr>"

text \<open>
  An argsort by insertion, which keeps equal keys in their order. \<open>float_less\<close> is the
  order numpy sorts floats by: NaN comes after every number.
\<close>

fun float_less :: "float64 \<Rightarrow> float64 \<Rightarrow> bool" where
  "float_less (Val a) (Val b) = (a < b)"
| "float_less (Val a) NaN = True"
| "float_less NaN _ = False"

fun insert_index :: "float64 list \<Rightarrow> nat \<Rightarrow> nat list \<Rightarrow> nat list" where
  "insert_index keys i [] = [i]"
| "insert_index keys i (j # js) =
     (if float_less (keys ! i) (keys ! j) then i # j # js else j # insert_index keys i js)"

definition stable_argsort :: "float64 list \<Rightarrow> nat list" where
  "stable_argsort keys = foldl (\<lambda>acc i. insert_index keys i acc) [] [0..<length keys]"

text \<open>A world without any file.\<close>

definition no_files :: env where
  "no_files =
     \<lparr>is_dir = (\<lambda>_. False), is_file = (\<lambda>_. False), exists = (\<lambda>_. False), iterdir = (\<lambda>_. []),
      read_tbk = (\<lambda>_. Inl OSError), memmap = (\<lambda>_. Inl OSError),
      fromfile_tsq = (\<lambda>_. Inl OSError), listdir = (\<lambda>_. Inl OSError),
      fromfile_int8 = (\<lambda>_. Inl OSError), glob = (\<lambda>_ _. []), argsort = stable_argsort\<rparr>"

text \<open>
  A tank with two blocks. Each block holds the stream \<open>Wave\<close> of \<open>c2_reader\<close>, a snippet
  store \<open>eNeu\<close> with two spikes and an onset store \<open>Tick\<close> with two events on channel 0
  and one record on channel 1. Block A runs from 100 to 110 and block B from 50 to 60.
\<close>

definition mark_rec :: "nat \<Rightarrow> real \<Rightarrow> tsq_record" where
  "mark_rec k t =
     \<lparr>rsize = 0, evtype = 34817, evname = (if k = 0 then [] else [char_of k]), channel = 0,
      sortcode = 0, timestamp = Val t, offset = 0, dataformat = 0, frequency = Val 0\<rparr>"

definition snip_rec :: "nat \<Rightarrow> 16 word \<Rightarrow> real \<Rightarrow> tsq_record" where
  "snip_rec ch code t =
     \<lparr>rsize = 0, evtype = EVTYPE_SNIP, evname = ''eNeu'', channel = ch, sortcode = code,
      timestamp = Val t, offset = 0, dataformat = 0, frequency = Val 25000\<rparr>"

definition tick_rec :: "nat \<Rightarrow> real \<Rightarrow> int \<Rightarrow> tsq_record" where
  "tick_rec ch t payload =
     \<lparr>rsize = 0, evtype = EVTYPE_STRON, evname = ''Tick'', channel = ch, sortcode = 0,
      timestamp = Val t, offset = payload, dataformat = 0, frequency = Val 0\<rparr>"

definition block_recs :: "real \<Rightarrow> real \<Rightarrow> tsq_record list" where
  "block_recs t0 t1 =
     [mark_rec 0 0, mark_rec 1 t0] @ c2_index 1 @ c2_index 2 @
     [snip_rec 1 1 (t0 + 1), snip_rec 1 2 (t0 + 2),
      tick_rec 0 (t0 + 3) 7, tick_rec 1 (t0 + 4) 8, tick_rec 0 (t0 + 5) 9,
      mark_rec 2 t1]"

definition tank_group :: "string \<Rightarrow> int \<Rightarrow> int \<Rightarrow> int \<Rightarrow> channel_group" where
  "tank_group name n ev pts =
     \<lparr>StoreName = name, HeadName = [], Enabled = True, CircType = 0, NumChan = n,
      StrobeMode = 0, TankEvType = ev, NumPoints = pts, DataFormat = 0,
      SampleFreq = Val 1000\<rparr>"

definition tank_groups :: "channel_group list" where
  "tank_groups =
     [tank_group ''Wave'' 2 EVTYPE_STREAM 4, tank_group ''eNeu'' 1 EVTYPE_SNIP 30,
      tank_group ''Tick'' 1 EVTYPE_STRON 0]"

definition block_files :: "string \<Rightarrow> string list" where
  "block_files b = map (\<lambda>ext. ''tank_'' @ b @ ext) [''.Tbk'', ''.tdx'', ''.tev'', ''.tsq'']"

definition tank_env :: env where
  "tank_env =
     \<lparr>is_dir = (\<lambda>p. p = ''tank'' \<or> p = ''tank/blockA'' \<or> p = ''tank/blockB''),
      is_file = (\<lambda>_. False),
      exists = (\<lambda>p. endswith p ''.tev''),
      iterdir = (\<lambda>p. if p = ''tank'' then [''blockA'', ''blockB'']
                      else if p = ''tank/blockA'' then block_files ''blockA''
                      else if p = ''tank/blockB'' then block_files ''blockB'' else []),
      read_tbk = (\<lambda>p. if endswith p ''.Tbk'' then Inr tank_groups else Inl OSError),
      memmap = (\<lambda>p. if endswith p ''.tev'' then Inr c2_buf else Inl OSError),
      fromfile_tsq = (\<lambda>p. if p = ''tank/blockA/tank_blockA.tsq'' then Inr (block_recs 100 110)
                           else if p = ''tank/blockB/tank_blockB.tsq'' then Inr (block_recs 50 60)
                           else Inl OSError),
      listdir = (\<lambda>_. Inl OSError), fromfile_int8 = (\<lambda>_. Inl OSError), glob = (\<lambda>_ _. []),
      argsort = stable_argsort\<rparr>"

text \<open>
  The example tank with a sort directory that holds a text file and one overlay file of
  a 1024-byte header followed by the given labels.
\<close>

definition overlay_env :: "8 word list \<Rightarrow> env" where
  "overlay_env labels =
     tank_env\<lparr>listdir := (\<lambda>_. Inr [''notes.txt'', ''PLX.SortResult'']),
              fromfile_int8 := (\<lambda>_. Inr (replicate 1024 0 @ labels))\<rparr>"

subsection \<open>Sequencing\<close>

lemma bind_Inr_iff: "(bind m f = Inr y) = (\<exists>x. m = Inr x \<and> f x = Inr y)"
  by (cases m) (simp_all add: bind_def)

lemma bind_Inl_iff: "(bind m f = Inl err) = (m = Inl err \<or> (\<exists>x. m = Inr x \<and> f x = Inl err))"
  by (cases m) (simp_all add: bind_def)

lemma bind_Inl [simp]: "bind (Inl err) f = Inl err"
  by (simp add: bind_def)

lemma bind_Inr [simp]: "bind (Inr x) f = f x"
  by (simp add: bind_def)

section \<open>Properties\<close>

subsection \<open>Lists of equally long chunks\<close>

lemma uniform_Cons [simp]: "uniform s (c # cs) = (length c = s \<and> uniform s cs)"
  by (auto simp: uniform_def)

lemma uniform_Nil [simp]: "uniform s []"
  by (simp add: uniform_def)

lemma uniform_drop: "uniform s cs \<Longrightarrow> uniform s (drop k cs)"
  unfolding uniform_def by (meson in_set_dropD)

lemma length_concat_uniform: "uniform s cs \<Longrightarrow> length (concat cs) = length cs * s"
  by (induction cs) auto

lemma take_concat_uniform:
  "uniform s cs \<Longrightarrow> take (k * s) (concat cs) = concat (take k cs)"
proof (induction cs arbitrary: k)
  case Nil
  then show ?case by simp
next
  case (Cons c cs)
  then show ?case by (cases k) auto
qed

lemma drop_concat_uniform:
  "uniform s cs \<Longrightarrow> drop (k * s) (concat cs) = concat (drop k cs)"
proof (induction cs arbitrary: k)
  case Nil
  then show ?case by simp
next
  case (Cons c cs)
  then show ?case by (cases k) auto
qed

lemma ceil_as_pred:
  fixes s e :: nat
  assumes "0 < s" "0 < e"
  shows "(e + s - 1) div s = (e - 1) div s + 1"
proof -
  have "e + s - 1 = (e - 1) + s" using assms by linarith
  moreover have "((e - 1) + s) div s = (e - 1) div s + 1"
    using assms(1) by (simp only: div_add_self2)
  ultimately show ?thesis by (simp only:)
qed

lemma ceil_bounds:
  fixes s e :: nat
  assumes "0 < s" "0 < e"
  shows "((e + s - 1) div s - 1) * s < e" "e \<le> ((e + s - 1) div s) * s" "0 < (e + s - 1) div s"
proof -
  define q where "q = (e - 1) div s"
  have m: "(e + s - 1) div s = q + 1" using ceil_as_pred [OF assms] by (simp only: q_def)
  have m1: "(e + s - 1) div s - 1 = q" using m by linarith
  have "q * s \<le> e - 1" unfolding q_def by simp
  then have "q * s < e" using assms(2) by linarith
  then show "((e + s - 1) div s - 1) * s < e" by (simp only: m1)
  have "e - 1 < s + q * s"
    unfolding q_def using assms(1) by (metis add.commute dividend_less_div_times mult.commute)
  then have "e \<le> (q + 1) * s" by (simp add: algebra_simps)
  then show "e \<le> ((e + s - 1) div s) * s" by (simp only: m)
  show "0 < (e + s - 1) div s" using m by linarith
qed

lemma last_len:
  fixes s e :: nat
  assumes "0 < s" "0 < e"
  shows "e - ((e + s - 1) div s - 1) * s = (if e mod s = 0 then s else e mod s)"
proof -
  define q where "q = (e - 1) div s"
  have "(e + s - 1) div s = q + 1" using ceil_as_pred [OF assms] by (simp only: q_def)
  then have m: "(e + s - 1) div s - 1 = q" by linarith
  define r where "r = (e - 1) mod s"
  have r: "r < s" using assms by (simp add: r_def)
  have "e - 1 = q * s + r" by (simp add: r_def q_def)
  then have e: "e = q * s + (r + 1)" using assms(2) by linarith
  have diff: "e - q * s = r + 1" using e by linarith
  have main: "e - q * s = (if e mod s = 0 then s else e mod s)"
  proof (cases "r + 1 = s")
    case True
    then have "e = (q + 1) * s" using e by (simp add: algebra_simps)
    then have "e mod s = 0" by (metis mod_mult_self2_is_0)
    then show ?thesis using diff True by simp
  next
    case False
    then have lt: "r + 1 < s" using r by linarith
    have "e mod s = (r + 1) mod s"
      by (subst e) (simp only: mod_mult_self3)
    then have "e mod s = r + 1" using lt by simp
    then show ?thesis using diff by simp
  qed
  show ?thesis unfolding m by (rule main)
qed

lemma concat_cut_right:
  assumes u: "uniform s cs" and s: "0 < s" and e: "e \<le> length cs * s"
    and m: "m = (e + s - 1) div s"
  shows "concat (map (cut_right s e m cs) [0..<m]) = take e (concat cs)"
proof (cases "e = 0")
  case True
  then show ?thesis using s m by simp
next
  case False
  then have e0: "0 < e" by simp
  have mpos: "0 < m" using ceil_bounds(3) [OF s e0] m by simp
  have lo: "(m - 1) * s < e" and hi: "e \<le> m * s"
    using ceil_bounds [OF s e0] m by simp_all
  have mn: "m \<le> length cs"
  proof (rule ccontr)
    assume "\<not> m \<le> length cs"
    then have "length cs \<le> m - 1" by simp
    then have "length cs * s \<le> (m - 1) * s" by (rule mult_le_mono1)
    then show False using lo e by linarith
  qed
  have split: "[0..<m] = [0..<m - 1] @ [m - 1]"
    using mpos by (metis Suc_diff_1 upt_Suc_append zero_le One_nat_def)
  have front: "map (cut_right s e m cs) [0..<m - 1] = take (m - 1) cs"
  proof -
    have "map (cut_right s e m cs) [0..<m - 1] = map (\<lambda>k. cs ! k) [0..<m - 1]"
      by (rule map_cong) (auto simp: cut_right_def)
    also have "\<dots> = map (\<lambda>k. cs ! k) (take (m - 1) [0..<length cs])"
      using mn by simp
    also have "\<dots> = take (m - 1) (map (\<lambda>k. cs ! k) [0..<length cs])"
      by (simp only: take_map)
    also have "\<dots> = take (m - 1) cs"
      by (simp only: map_nth)
    finally show ?thesis .
  qed
  have lastc: "cut_right s e m cs (m - 1) = take (e - (m - 1) * s) (cs ! (m - 1))"
  proof -
    have len: "length (cs ! (m - 1)) = s"
      using u mn mpos by (simp add: uniform_def)
    show ?thesis
      using last_len [OF s e0] m mpos len by (simp add: cut_right_def)
  qed
  have dr: "drop ((m - 1) * s) (concat cs) = cs ! (m - 1) @ concat (drop m cs)"
  proof -
    have "drop (m - 1) cs = cs ! (m - 1) # drop m cs"
      using mn mpos by (metis Suc_diff_1 Cons_nth_drop_Suc Suc_le_lessD One_nat_def)
    then show ?thesis using drop_concat_uniform [OF u, of "m - 1"] by simp
  qed
  have len: "length (cs ! (m - 1)) = s"
    using u mn mpos by (simp add: uniform_def)
  have "take e (concat cs) =
        take ((m - 1) * s) (concat cs) @ take (e - (m - 1) * s) (drop ((m - 1) * s) (concat cs))"
    using lo by (metis take_add le_add_diff_inverse less_imp_le_nat)
  also have "\<dots> = concat (take (m - 1) cs) @ take (e - (m - 1) * s) (cs ! (m - 1))"
    using take_concat_uniform [OF u, of "m - 1"] dr hi len mpos
    by (simp add: algebra_simps diff_mult_distrib)
  finally show ?thesis
    using split front lastc by simp
qed


lemma concat_cut_left:
  assumes u: "uniform s cs" and s: "0 < s" and e: "e \<le> length cs * s"
    and m: "m = (e + s - 1) div s" and ra: "ra \<le> e" "ra < s"
  shows "concat (map (\<lambda>j. if j = 0 then drop ra (cut_right s e m cs j) else cut_right s e m cs j) [0..<m])
         = drop ra (take e (concat cs))"
proof (cases "e = 0")
  case True
  then show ?thesis using s m by simp
next
  case False
  then have e0: "0 < e" by simp
  let ?Q = "cut_right s e m cs"
  have mpos: "0 < m" using ceil_bounds(3) [OF s e0] m by simp
  have hi: "e \<le> m * s" using ceil_bounds(2) [OF s e0] m by simp
  have ne: "cs \<noteq> []" using e e0 by auto
  then have len0: "length (cs ! 0) = s" using u by (simp add: uniform_def)
  have split: "[0..<m] = 0 # [Suc 0..<m]" using mpos by (simp add: upt_conv_Cons)
  have rest: "map (\<lambda>j. if j = 0 then drop ra (?Q j) else ?Q j) [Suc 0..<m] = map ?Q [Suc 0..<m]"
    by (rule map_cong) auto
  have lenQ: "ra \<le> length (?Q 0)"
  proof (cases "0 + 1 = m \<and> e mod s \<noteq> 0")
    case True
    then have "m = 1" by simp
    then have "e \<le> s" using hi by simp
    then have "e < s" using True by (metis le_neq_implies_less mod_self)
    then have "e mod s = e" by simp
    then show ?thesis using True len0 ra \<open>e \<le> s\<close> by (simp add: cut_right_def)
  next
    case False
    then have "?Q 0 = cs ! 0" by (auto simp: cut_right_def)
    then show ?thesis using len0 ra by simp
  qed
  have "concat (map (\<lambda>j. if j = 0 then drop ra (?Q j) else ?Q j) [0..<m])
        = drop ra (?Q 0) @ concat (map ?Q [Suc 0..<m])"
    by (simp only: split list.map rest concat.simps if_True refl)
  also have "\<dots> = drop ra (?Q 0 @ concat (map ?Q [Suc 0..<m]))"
    using lenQ by simp
  also have "\<dots> = drop ra (concat (map ?Q [0..<m]))"
    by (simp add: split)
  finally show ?thesis
    using concat_cut_right [OF u s e m] by simp
qed

lemma concat_cut_both:
  assumes u: "uniform s cs" and s: "0 < s" and ab: "a \<le> b" and b: "b \<le> length cs * s"
  shows "concat (map (cut_both s a b cs) [a div s..<(b + s - 1) div s])
         = take (b - a) (drop a (concat cs))"
proof -
  define bl0 where "bl0 = a div s"
  define ra where "ra = a mod s"
  define e where "e = b - bl0 * s"
  define m where "m = (e + s - 1) div s"
  define cs' where "cs' = drop bl0 cs"
  have a: "a = bl0 * s + ra" by (simp add: bl0_def ra_def)
  have le: "bl0 * s \<le> b" using a ab by linarith
  have be: "b = bl0 * s + e" using le by (simp add: e_def)
  have rae: "ra \<le> e" using a ab be by linarith
  have ras: "ra < s" using s by (simp add: ra_def)
  have bl1: "(b + s - 1) div s = bl0 + m"
  proof -
    have "b + s - 1 = (e + s - 1) + bl0 * s" using be s by linarith
    then have "(b + s - 1) div s = (e + s - 1) div s + bl0"
      using s by (simp only: div_mult_self1)
    then show ?thesis by (simp add: m_def)
  qed
  have bmod: "b mod s = e mod s" by (subst be) simp
  have u': "uniform s cs'" unfolding cs'_def using u by (rule uniform_drop)
  have bl0n: "bl0 \<le> length cs"
  proof (rule ccontr)
    assume "\<not> bl0 \<le> length cs"
    then have "length cs + 1 \<le> bl0" by simp
    then have "(length cs + 1) * s \<le> bl0 * s" by (rule mult_le_mono1)
    then show False using le b s by (simp add: algebra_simps)
  qed
  have e': "e \<le> length cs' * s"
    using b be bl0n by (simp add: cs'_def diff_mult_distrib)
  have mn: "m \<le> length cs'"
  proof (cases "e = 0")
    case True
    then show ?thesis using s by (simp add: m_def)
  next
    case False
    then have lo: "(m - 1) * s < e" using ceil_bounds(1) [OF s] by (simp add: m_def)
    show ?thesis
    proof (rule ccontr)
      assume "\<not> m \<le> length cs'"
      then have "length cs' \<le> m - 1" by simp
      then have "length cs' * s \<le> (m - 1) * s" by (rule mult_le_mono1)
      then show False using lo e' by linarith
    qed
  qed
  have shift: "[bl0..<bl0 + m] = map (\<lambda>j. bl0 + j) [0..<m]"
    by (simp add: map_add_upt add.commute)
  have pt: "cut_both s a b cs (bl0 + j) =
            (if j = 0 then drop ra (cut_right s e m cs' j) else cut_right s e m cs' j)"
    if "j < m" for j
  proof -
    have "bl0 + j < length cs" using that mn by (simp add: cs'_def)
    then have nth: "cs' ! j = cs ! (bl0 + j)" by (simp add: cs'_def)
    show ?thesis
      using nth bl1 bmod
      by (auto simp add: cut_both_def cut_right_def Let_def simp flip: bl0_def ra_def)
  qed
  have "map (cut_both s a b cs) [bl0..<bl0 + m] =
        map (\<lambda>j. if j = 0 then drop ra (cut_right s e m cs' j) else cut_right s e m cs' j) [0..<m]"
    unfolding shift map_map by (rule map_cong) (use pt in auto)
  then have "concat (map (cut_both s a b cs) [bl0..<bl0 + m]) = drop ra (take e (concat cs'))"
    using concat_cut_left [OF u' s e' m_def rae ras] by simp
  also have "\<dots> = drop ra (take e (drop (bl0 * s) (concat cs)))"
    using drop_concat_uniform [OF u, of bl0] by (simp add: cs'_def)
  also have "\<dots> = take (e - ra) (drop (ra + bl0 * s) (concat cs))"
    by (simp add: drop_take)
  also have "\<dots> = take (b - a) (drop a (concat cs))"
    using a be by (simp add: add.commute)
  finally have R: "concat (map (cut_both s a b cs) [bl0..<bl0 + m]) =
      take (b - a) (drop a (concat cs))" .
  show ?thesis unfolding bl1 bl0_def [symmetric] by (rule R)
qed

subsection \<open>Slices and chunk views\<close>

lemma length_chunks_of:
  "0 < k \<Longrightarrow> length xs = m * k \<Longrightarrow> length (chunks_of k xs) = m"
proof (induction m arbitrary: xs)
  case 0
  then show ?case by (simp add: chunks_of.simps)
next
  case (Suc m)
  then have ne: "xs \<noteq> []" by auto
  have "length (drop k xs) = m * k" using Suc.prems by simp
  then have "length (chunks_of k (drop k xs)) = m" using Suc.IH Suc.prems(1) by blast
  then show ?case using ne Suc.prems(1) by (subst chunks_of.simps) simp
qed

lemma py_slice_take_drop:
  "0 \<le> i \<Longrightarrow> i \<le> j \<Longrightarrow> j \<le> int (length xs) \<Longrightarrow>
   py_slice xs (Some i) (Some j) = take (nat (j - i)) (drop (nat i) xs)"
  by (auto simp add: py_slice_def clip_bound_def Let_def min_def nat_diff_distrib nat_le_iff)

lemma py_slice_from:
  "0 \<le> i \<Longrightarrow> py_slice xs (Some i) None = drop (nat i) xs"
  by (simp add: py_slice_def clip_bound_def Let_def min_def)

lemma py_slice_upto_neg:
  "0 < d \<Longrightarrow> d \<le> int (length xs) \<Longrightarrow>
   py_slice xs None (Some (- d)) = take (nat (int (length xs) - d)) xs"
  by (simp add: py_slice_def clip_bound_def Let_def max_def)

lemma itemsize_pos: "0 < itemsize dt"
  by (cases dt) simp_all

lemma length_chunk_elems:
  assumes "0 < spc" "chunk_in_buffer data_buf dt spc r"
  shows "length (chunk_elems data_buf dt spc r) = nat spc"
proof -
  have "int (nat (offset r) + nat spc * itemsize dt) = offset r + spc * int (itemsize dt)"
    using assms unfolding chunk_in_buffer_def by simp
  then have "nat (offset r) + nat spc * itemsize dt \<le> length data_buf"
    using assms(2) unfolding chunk_in_buffer_def by linarith
  then have "length (take (nat spc * itemsize dt) (drop (nat (offset r)) data_buf)) = nat spc * itemsize dt"
    by simp
  then show ?thesis
    unfolding chunk_elems_def using length_chunks_of [OF itemsize_pos] by blast
qed

lemma get_chunk_ok:
  assumes spc: "0 < spc"
    and bl: "0 \<le> bl" "bl < int (length data_index)"
    and inb: "chunk_in_buffer data_buf dt spc (data_index ! nat bl)"
  shows "get_chunk data_index data_buf dt spc i_start i_stop bl0 bl1 bl =
         Inr (piece data_buf dt spc i_start i_stop bl0 bl1 (data_index ! nat bl) bl)"
proof -
  define r where "r = data_index ! nat bl"
  define c where "c = chunk_elems data_buf dt spc r"
  have idx: "py_index data_index bl = Inr r"
    using bl by (simp add: py_index_def Let_def r_def)
  have off: "0 \<le> offset r" "offset r + spc * int (itemsize dt) \<le> int (length data_buf)"
    using inb by (simp_all add: chunk_in_buffer_def r_def)
  have le: "offset r \<le> offset r + spc * int (itemsize dt)"
    using spc by simp
  have sl: "py_slice data_buf (Some (offset r)) (Some (offset r + spc * int (itemsize dt)))
            = take (nat spc * itemsize dt) (drop (nat (offset r)) data_buf)"
    using py_slice_take_drop [OF off(1) le off(2)] spc by (simp add: nat_mult_distrib)
  have "int (nat (offset r) + nat spc * itemsize dt) = offset r + spc * int (itemsize dt)"
    using off(1) spc by simp
  then have "nat (offset r) + nat spc * itemsize dt \<le> length data_buf"
    using off(2) by linarith
  then have len: "length (take (nat spc * itemsize dt) (drop (nat (offset r)) data_buf)) = nat spc * itemsize dt"
    by simp
  have vw: "view dt (take (nat spc * itemsize dt) (drop (nat (offset r)) data_buf)) = Inr c"
    unfolding view_def chunk_elems_def c_def using len by simp
  have lc: "length c = nat spc"
    using length_chunk_elems [OF spc inb] by (simp add: c_def r_def)
  have m: "0 \<le> i_stop mod spc" "i_stop mod spc < spc" "0 \<le> i_start mod spc"
    using spc by simp_all
  have right: "i_stop mod spc \<noteq> 0 \<Longrightarrow>
      py_slice c None (Some (i_stop mod spc - int (length c))) = take (nat (i_stop mod spc)) c"
    using py_slice_upto_neg [of "int (length c) - i_stop mod spc" c] m lc spc by simp
  have "get_chunk data_index data_buf dt spc i_start i_stop bl0 bl1 bl =
         Inr (piece data_buf dt spc i_start i_stop bl0 bl1 r bl)"
    unfolding get_chunk_def
    using idx sl vw right m(3)
    by (simp add: bind_def Let_def piece_def py_slice_from flip: c_def)
  then show ?thesis by (simp add: r_def)
qed

subsection \<open>The loop over data blocks\<close>

lemma mapM_Inr:
  "(\<And>x. x \<in> set xs \<Longrightarrow> f x = Inr (g x)) \<Longrightarrow> mapM f xs = Inr (map g xs)"
  by (induction xs) (simp_all add: bind_def)

lemma assign_slice_fits:
  "ind + length data \<le> length col \<Longrightarrow>
   assign_slice col ind data = Inr (take ind col @ data @ drop (ind + length data) col)"
proof -
  assume fit: "ind + length data \<le> length col"
  have c1: "clip_bound (length col) (int ind) = ind"
    using fit by (simp add: clip_bound_def)
  have c2: "clip_bound (length col) (int (ind + length data)) = ind + length data"
    using fit by (simp add: clip_bound_def del: of_nat_add)
  have "length (py_slice col (Some (int ind)) (Some (int (ind + length data)))) = length data"
    unfolding py_slice_def Let_def option.case c1 c2 using fit by simp
  then show ?thesis
    unfolding assign_slice_def Let_def by simp
qed

lemma fill_column_ok:
  "mapM chunk bls = Inr ps \<Longrightarrow> ind + length (concat ps) \<le> length col \<Longrightarrow>
   fill_column chunk bls ind col =
     Inr (take ind col @ concat ps @ drop (ind + length (concat ps)) col)"
proof (induction bls arbitrary: ps ind col)
  case Nil
  then show ?case by simp
next
  case (Cons bl bls)
  from Cons.prems(1) obtain p ps' where
    p: "chunk bl = Inr p" and ps': "mapM chunk bls = Inr ps'" and ps: "ps = p # ps'"
    by (auto simp: bind_def split: sum.splits)
  let ?col' = "take ind col @ p @ drop (ind + length p) col"
  have fit: "ind + length p \<le> length col" using Cons.prems(2) ps by simp
  have as: "assign_slice col ind p = Inr ?col'" using assign_slice_fits [OF fit] .
  have len': "length ?col' = length col" using fit by simp
  have fit': "(ind + length p) + length (concat ps') \<le> length ?col'"
    using Cons.prems(2) ps len' by simp
  have "fill_column chunk bls (ind + length p) ?col' =
        Inr (take (ind + length p) ?col' @ concat ps' @
             drop ((ind + length p) + length (concat ps')) ?col')"
    using Cons.IH [OF ps' fit'] .
  moreover have "take (ind + length p) ?col' = take ind col @ p"
    using fit by simp
  moreover have "drop ((ind + length p) + length (concat ps')) ?col' =
                 drop (ind + length (concat ps)) col"
    using fit ps by (simp add: ac_simps)
  ultimately show ?case
    using p as ps by (simp add: bind_def)
qed

lemma int_ceil_div:
  fixes b spc :: int
  assumes "0 < spc" "0 \<le> b"
  shows "- ((- b) div spc) = (b + spc - 1) div spc"
proof -
  have "(- b) div spc = (if b mod spc = 0 then - (b div spc) else - (b div spc) - 1)"
    using assms by (simp add: zdiv_zminus1_eq_if)
  moreover have "(b + spc - 1) div spc = (if b mod spc = 0 then b div spc else b div spc + 1)"
  proof -
    define q r where "q = b div spc" and "r = b mod spc"
    have b: "b = q * spc + r" by (simp add: q_def r_def)
    have r: "0 \<le> r" "r < spc" using assms by (simp_all add: r_def)
    have "(b + spc - 1) div spc = ((r + spc - 1) + q * spc) div spc"
      by (simp add: b algebra_simps)
    also have "\<dots> = q + (r + spc - 1) div spc"
      using assms(1) by (simp only: div_mult_self1) 
    also have "(r + spc - 1) div spc = (if r = 0 then 0 else 1)"
    proof (cases "r = 0")
      case True
      then show ?thesis using assms(1) by (simp add: div_pos_pos_trivial)
    next
      case False
      then have "r + spc - 1 = (r - 1) + 1 * spc" "0 \<le> r - 1" "r - 1 < spc" using r by simp_all
      then have "(r + spc - 1) div spc = 1 + (r - 1) div spc"
        using assms(1) by (simp only: div_mult_self1)
      then show ?thesis using False \<open>0 \<le> r - 1\<close> \<open>r - 1 < spc\<close> by (simp add: div_pos_pos_trivial)
    qed
    finally show ?thesis by (simp add: q_def r_def)
  qed
  ultimately show ?thesis by simp
qed

lemma nat_ceil_div:
  fixes b spc :: int
  assumes "0 < spc" "0 \<le> b"
  shows "nat (- ((- b) div spc)) = (nat b + nat spc - 1) div nat spc"
proof -
  have "nat ((b + spc - 1) div spc) = nat (b + spc - 1) div nat spc"
    using assms by (simp add: nat_div_distrib)
  moreover have "nat (b + spc - 1) = nat b + nat spc - 1"
    using assms by linarith
  ultimately show ?thesis using int_ceil_div [OF assms] by simp
qed

lemma py_range_nat:
  assumes l: "0 \<le> l"
  shows "py_range l h = map int [nat l..<nat h]"
proof -
  have d: "nat (h - l) = nat h - nat l"
    using l by linarith
  have "[nat l..<nat h] = map (\<lambda>k. k + nat l) [0..<nat h - nat l]"
  proof (cases "nat l \<le> nat h")
    case True
    then show ?thesis by (simp add: map_add_upt)
  next
    case False
    then show ?thesis by simp
  qed
  then have "map int [nat l..<nat h] = map (\<lambda>k. int (k + nat l)) [0..<nat h - nat l]"
    by (simp add: comp_def)
  also have "\<dots> = map (\<lambda>k. l + int k) [0..<nat (h - l)]"
    unfolding d using l by (intro map_cong refl) simp
  finally show ?thesis by (simp add: py_range_def)
qed


lemma piece_cut_both:
  assumes spc: "0 < spc" and a: "0 \<le> a" and b: "0 \<le> b" and k: "k < length data_index"
  shows "piece data_buf dt spc a b (a div spc) (- ((- b) div spc)) (data_index ! k) (int k) =
         cut_both (nat spc) (nat a) (nat b) (map (chunk_elems data_buf dt spc) data_index) k"
proof -
  have bl0: "(int k = a div spc) = (k = nat a div nat spc)"
  proof -
    have "0 \<le> a div spc" using a spc by (simp add: pos_imp_zdiv_nonneg_iff)
    then have "(int k = a div spc) = (k = nat (a div spc))" by linarith
    then show ?thesis using a by (simp add: nat_div_distrib)
  qed
  have bl1: "(int k = - ((- b) div spc) - 1) = (k + 1 = (nat b + nat spc - 1) div nat spc)"
  proof -
    have "0 \<le> (b + spc - 1) div spc" using b spc by (simp add: pos_imp_zdiv_nonneg_iff)
    then have "0 \<le> - ((- b) div spc)" using int_ceil_div [OF spc b] by simp
    then have "(int k = - ((- b) div spc) - 1) = (k + 1 = nat (- ((- b) div spc)))" by linarith
    then show ?thesis using nat_ceil_div [OF spc b] by simp
  qed
  have mb: "nat (b mod spc) = nat b mod nat spc" "(b mod spc = 0) = (nat b mod nat spc = 0)"
  proof -
    show m: "nat (b mod spc) = nat b mod nat spc" using b spc by (simp add: nat_mod_distrib)
    have "0 \<le> b mod spc" using spc by simp
    then show "(b mod spc = 0) = (nat b mod nat spc = 0)" using m by linarith
  qed
  have ma: "nat (a mod spc) = nat a mod nat spc" using a spc by (simp add: nat_mod_distrib)
  show ?thesis
    unfolding piece_def cut_both_def Let_def bl0 bl1 mb ma using k by simp
qed

lemma ceil_le_length:
  fixes s b n :: nat
  assumes "0 < s" "b \<le> n * s"
  shows "(b + s - 1) div s \<le> n"
proof -
  have "(b + s - 1) div s \<le> ((s - 1) + n * s) div s"
    using assms by (intro div_le_mono) linarith
  also have "\<dots> = n + (s - 1) div s" using assms(1) by (simp only: div_mult_self1)
  also have "\<dots> = n" using assms(1) by simp
  finally show ?thesis .
qed

lemma nat_le_chunks:
  assumes "0 < spc" "0 \<le> b" "b \<le> spc * int n"
  shows "nat b \<le> n * nat spc"
proof -
  have "int (n * nat spc) = spc * int n" using assms(1) by simp
  then show ?thesis using assms(3) by linarith
qed

lemma uniform_chunk_elems:
  assumes "0 < spc" "\<forall>r \<in> set data_index. chunk_in_buffer data_buf dt spc r"
  shows "uniform (nat spc) (map (chunk_elems data_buf dt spc) data_index)"
  using assms by (auto simp: uniform_def length_chunk_elems)

lemma read_chunks_ok:
  assumes spc: "0 < spc" and a: "0 \<le> a" and ab: "a \<le> b"
    and bn: "b \<le> spc * int (length data_index)"
    and inb: "\<forall>r \<in> set data_index. chunk_in_buffer data_buf dt spc r"
  shows "mapM (get_chunk data_index data_buf dt spc a b (a div spc) (- ((- b) div spc)))
           (py_range (a div spc) (- ((- b) div spc))) =
         Inr (map (cut_both (nat spc) (nat a) (nat b) (map (chunk_elems data_buf dt spc) data_index))
                [nat a div nat spc..<(nat b + nat spc - 1) div nat spc])"
proof -
  let ?cs = "map (chunk_elems data_buf dt spc) data_index"
  let ?bl0 = "a div spc" and ?bl1 = "- ((- b) div spc)"
  have b: "0 \<le> b" using a ab by simp
  have bl0: "0 \<le> ?bl0" using a spc by (simp add: pos_imp_zdiv_nonneg_iff)
  have nbl0: "nat ?bl0 = nat a div nat spc" using a by (simp add: nat_div_distrib)
  have nbl1: "nat ?bl1 = (nat b + nat spc - 1) div nat spc" using nat_ceil_div [OF spc b] .
  have bn': "nat b \<le> length data_index * nat spc"
    using nat_le_chunks [OF spc b bn] .
  have top: "(nat b + nat spc - 1) div nat spc \<le> length data_index"
    using ceil_le_length [OF _ bn'] spc by simp
  have rng: "py_range ?bl0 ?bl1 = map int [nat a div nat spc..<(nat b + nat spc - 1) div nat spc]"
    using py_range_nat [OF bl0, of ?bl1] by (simp only: nbl0 nbl1)
  have each: "get_chunk data_index data_buf dt spc a b ?bl0 ?bl1 (int k) =
              Inr (cut_both (nat spc) (nat a) (nat b) ?cs k)"
    if "k \<in> set [nat a div nat spc..<(nat b + nat spc - 1) div nat spc]" for k
  proof -
    have k: "k < length data_index" using that top by simp
    then have "chunk_in_buffer data_buf dt spc (data_index ! nat (int k))" using inb by simp
    then have "get_chunk data_index data_buf dt spc a b ?bl0 ?bl1 (int k) =
          Inr (piece data_buf dt spc a b ?bl0 ?bl1 (data_index ! nat (int k)) (int k))"
      using get_chunk_ok [OF spc, of "int k" data_index] k by simp
    then show ?thesis using piece_cut_both [OF spc a b k] by simp
  qed
  have "mapM (get_chunk data_index data_buf dt spc a b ?bl0 ?bl1)
          (map int [nat a div nat spc..<(nat b + nat spc - 1) div nat spc]) =
        Inr (map (\<lambda>bl. cut_both (nat spc) (nat a) (nat b) ?cs (nat bl))
          (map int [nat a div nat spc..<(nat b + nat spc - 1) div nat spc]))"
    by (rule mapM_Inr) (use each in auto)
  then show ?thesis by (simp add: rng comp_def)
qed

lemma read_column_ok:
  assumes idx: "sigs_index self (seg_index, g) = Some data_index"
    and buf: "sigs_data_buf self (seg_index, g) = Some data_buf"
    and spc: "0 < spc" and a: "0 \<le> a" and ab: "a \<le> b"
    and bn: "b \<le> spc * int (length data_index)"
    and inb: "\<forall>r \<in> set data_index. chunk_in_buffer data_buf dt spc r"
  shows "read_column self seg_index dt spc a b (a div spc) (- ((- b) div spc)) g =
         Inr (take (nat (b - a)) (drop (nat a) (channel_samples data_index data_buf dt spc)))"
proof -
  let ?cs = "map (chunk_elems data_buf dt spc) data_index"
  let ?ps = "map (cut_both (nat spc) (nat a) (nat b) ?cs)
                [nat a div nat spc..<(nat b + nat spc - 1) div nat spc]"
  let ?col = "replicate (nat (b - a)) (zero_elem dt)"
  have b: "0 \<le> b" using a ab by simp
  have u: "uniform (nat spc) ?cs" using uniform_chunk_elems [OF spc inb] .
  have s: "0 < nat spc" using spc by simp
  have ab': "nat a \<le> nat b" using ab by simp
  have bn': "nat b \<le> length ?cs * nat spc"
    using nat_le_chunks [OF spc b bn] by simp
  have cc: "concat ?ps = take (nat b - nat a) (drop (nat a) (concat ?cs))"
    using concat_cut_both [OF u s ab' bn'] .
  have d: "nat (b - a) = nat b - nat a" using a ab by linarith
  have lc: "length (concat ?ps) = nat (b - a)"
  proof -
    have "nat b \<le> length (concat ?cs)"
      using bn' by (simp only: length_concat_uniform [OF u])
    then have "length (take (nat b - nat a) (drop (nat a) (concat ?cs))) = nat b - nat a"
      by (simp only: length_take length_drop) linarith
    then show ?thesis unfolding cc d .
  qed
  have fit: "0 + length (concat ?ps) \<le> length ?col" using lc by simp
  have "fill_column (get_chunk data_index data_buf dt spc a b (a div spc) (- ((- b) div spc)))
          (py_range (a div spc) (- ((- b) div spc))) 0 ?col =
        Inr (take 0 ?col @ concat ?ps @ drop (0 + length (concat ?ps)) ?col)"
    using fill_column_ok [OF read_chunks_ok [OF spc a ab bn inb] fit] .
  then have "fill_column (get_chunk data_index data_buf dt spc a b (a div spc) (- ((- b) div spc)))
          (py_range (a div spc) (- ((- b) div spc))) 0 ?col = Inr (concat ?ps)"
    unfolding lc by simp
  then have "fill_column (get_chunk data_index data_buf dt spc a b (a div spc) (- ((- b) div spc)))
          (py_range (a div spc) (- ((- b) div spc))) 0 ?col =
        Inr (take (nat (b - a)) (drop (nat a) (channel_samples data_index data_buf dt spc)))"
    unfolding cc d channel_samples_def .
  then show ?thesis
    unfolding read_column_def using idx buf
    by (simp add: bind_def lookup_def)
qed

subsection \<open>Reading a range of one stream\<close>

lemma channel_okD:
  assumes "channel_ok self seg_index dt spc len g"
  obtains data_index data_buf where
    "sigs_index self (seg_index, g) = Some data_index"
    "sigs_data_buf self (seg_index, g) = Some data_buf"
    "len = spc * int (length data_index)"
    "\<forall>r \<in> set data_index. chunk_in_buffer data_buf dt spc r"
    "channel_chunks self seg_index dt spc g = map (chunk_elems data_buf dt spc) data_index"
  using assms
  by (auto simp: channel_ok_def channel_chunks_def list_all_iff split: option.splits)

lemma read_column_channel:
  assumes ok: "channel_ok self seg_index dt spc len g"
    and spc: "0 < spc" and a: "0 \<le> a" and ab: "a \<le> b" and bl: "b \<le> len"
  shows "read_column self seg_index dt spc a b (a div spc) (- ((- b) div spc)) g =
         Inr (take (nat (b - a)) (drop (nat a) (concat (channel_chunks self seg_index dt spc g))))"
proof -
  from ok obtain data_index data_buf where
    f: "sigs_index self (seg_index, g) = Some data_index"
       "sigs_data_buf self (seg_index, g) = Some data_buf"
       "len = spc * int (length data_index)"
       "\<forall>r \<in> set data_index. chunk_in_buffer data_buf dt spc r"
       "channel_chunks self seg_index dt spc g = map (chunk_elems data_buf dt spc) data_index"
    by (rule channel_okD)
  have bn: "b \<le> spc * int (length data_index)" using bl f(3) by simp
  show ?thesis
    using read_column_ok [OF f(1) f(2) spc a ab bn f(4)]
    by (simp add: f(5) channel_samples_def)
qed

lemma chunk_read_ok:
  assumes hdr: "header self = Some h"
    and sel: "select_channels h stream_index channel_indexes = Inr gs"
    and ok: "stream_ok self seg_index stream_index dt spc len gs"
    and a: "a = (case i_start_arg of None \<Rightarrow> 0 | Some x \<Rightarrow> x)"
    and b: "b = (case i_stop_arg of None \<Rightarrow> len | Some y \<Rightarrow> y)"
    and rng: "0 \<le> a" "a \<le> b" "b \<le> len"
  shows "get_analogsignal_chunk self block_index seg_index i_start_arg i_stop_arg stream_index
           channel_indexes =
         Inr \<lparr>nrows = nat (b - a), elem_type = dt,
              columns = map (\<lambda>g. take (nat (b - a))
                           (drop (nat a) (concat (channel_chunks self seg_index dt spc g)))) gs\<rparr>"
proof -
  have dt: "sig_dtype_by_group self stream_index = Some dt"
    and spc: "sig_sample_per_chunk self stream_index = Some spc" "0 < spc"
    and len: "sigs_lengths self (seg_index, stream_index) = Some len"
    and chans: "\<forall>g \<in> set gs. channel_ok self seg_index dt spc len g"
    using ok by (simp_all add: stream_ok_def list_all_iff)
  have stop: "(case i_stop_arg of None \<Rightarrow> lookup (sigs_lengths self) (seg_index, stream_index)
                | Some y \<Rightarrow> Inr y) = Inr b"
    using b len by (simp add: lookup_def split: option.splits)
  have cd: "ceil_div b spc = Inr (- ((- b) div spc))"
    using spc(2) by (simp add: ceil_div_def)
  have cols: "mapM (read_column self seg_index dt spc a b (a div spc) (- ((- b) div spc))) gs =
        Inr (map (\<lambda>g. take (nat (b - a))
               (drop (nat a) (concat (channel_chunks self seg_index dt spc g)))) gs)"
    by (rule mapM_Inr) (use chans spc(2) rng read_column_channel in blast)
  show ?thesis
    unfolding get_analogsignal_chunk_def Let_def a [symmetric] stop
    using hdr sel dt spc(1) cd cols rng(2)
    by (simp add: bind_def get_header_def lookup_def)
qed

lemma piece_concat:
  assumes ok: "channel_ok self seg_index dt spc len g"
    and spc: "0 < spc" and a: "0 \<le> a" and ab: "a \<le> b" and bl: "b \<le> len"
  shows "concat (map (channel_piece self seg_index dt spc a b g)
           (py_range (a div spc) (- ((- b) div spc)))) =
         take (nat (b - a)) (drop (nat a) (concat (channel_chunks self seg_index dt spc g)))"
proof -
  from ok obtain data_index data_buf where
    f: "sigs_index self (seg_index, g) = Some data_index"
       "sigs_data_buf self (seg_index, g) = Some data_buf"
       "len = spc * int (length data_index)"
       "\<forall>r \<in> set data_index. chunk_in_buffer data_buf dt spc r"
       "channel_chunks self seg_index dt spc g = map (chunk_elems data_buf dt spc) data_index"
    by (rule channel_okD)
  let ?cs = "map (chunk_elems data_buf dt spc) data_index"
  let ?lo = "nat a div nat spc" and ?hi = "(nat b + nat spc - 1) div nat spc"
  have b: "0 \<le> b" using a ab by simp
  have bn: "b \<le> spc * int (length data_index)" using bl f(3) by simp
  have bn': "nat b \<le> length ?cs * nat spc" using nat_le_chunks [OF spc b bn] by simp
  have u: "uniform (nat spc) ?cs" using uniform_chunk_elems [OF spc f(4)] .
  have bl0: "0 \<le> a div spc" using a spc by (simp add: pos_imp_zdiv_nonneg_iff)
  have rng: "py_range (a div spc) (- ((- b) div spc)) = map int [?lo..<?hi]"
    using py_range_nat [OF bl0, of "- ((- b) div spc)"] nat_ceil_div [OF spc b] a
    by (simp only: nat_div_distrib)
  have top: "?hi \<le> length data_index"
    using ceil_le_length [OF _ bn'] spc by simp
  have "map (channel_piece self seg_index dt spc a b g) (map int [?lo..<?hi]) =
        map (cut_both (nat spc) (nat a) (nat b) ?cs) [?lo..<?hi]"
    unfolding map_map
  proof (rule map_cong [OF refl])
    fix k assume "k \<in> set [?lo..<?hi]"
    then have k: "k < length data_index" using top by simp
    show "(channel_piece self seg_index dt spc a b g \<circ> int) k =
          cut_both (nat spc) (nat a) (nat b) ?cs k"
      using piece_cut_both [OF spc a b k] by (simp add: channel_piece_def f(1) f(2))
  qed
  moreover have "concat (map (cut_both (nat spc) (nat a) (nat b) ?cs) [?lo..<?hi]) =
             take (nat b - nat a) (drop (nat a) (concat ?cs))"
  proof -
    have "0 < nat spc" "nat a \<le> nat b" using spc ab by simp_all
    then show ?thesis using concat_cut_both [OF u _ _ bn'] by blast
  qed
  moreover have "nat (b - a) = nat b - nat a" using a ab by linarith
  ultimately show ?thesis by (simp only: rng f(5))
qed

section \<open>The claims\<close>

subsection \<open>C1: reading samples 300 to 600 of four chunks of 256\<close>

lemma slice_300_600:
  assumes u: "uniform 256 cs" and n: "length cs = 4"
  shows "take 300 (drop 300 (concat cs)) = drop 44 (cs ! 1) @ take (256 - 168) (cs ! 2)"
proof -
  have "concat (map (cut_both 256 300 600 cs) [300 div 256..<(600 + 256 - 1) div 256]) =
        take (600 - 300) (drop 300 (concat cs))"
    using concat_cut_both [OF u, of 300 600] n by simp
  moreover have "[300 div 256..<(600 + 256 - 1) div 256] = [1, 2 :: nat]"
    by (simp add: upt_conv_Cons)
  ultimately show ?thesis
    by (simp add: cut_both_def)
qed

lemma c1_select: "select_channels (the (header c1_reader)) 0 None = Inr [0]"
  by (simp add: c1_reader_def empty_reader_def select_channels_def py_index_def bind_def
      wave_channel_def)

lemma length_c1_buf: "length c1_buf = 1024"
  by (simp add: c1_buf_def)

lemma c1_index_eq:
  "c1_index = [stream_rec ''Wave'' 1 0 3, stream_rec ''Wave'' 1 256 3,
               stream_rec ''Wave'' 1 512 3, stream_rec ''Wave'' 1 768 3]"
  by (simp add: c1_index_def upt_conv_Cons)

lemma c1_index_in_buffer: "list_all (chunk_in_buffer c1_buf Int8 256) c1_index"
  by (simp add: c1_index_eq length_c1_buf chunk_in_buffer_def stream_rec_def)

lemma c1_stream_ok: "stream_ok c1_reader 0 0 Int8 256 1024 [0]"
  using c1_index_in_buffer
  by (simp add: stream_ok_def channel_ok_def c1_reader_def empty_reader_def)
     (simp add: c1_index_eq)

text \<open>
  C1 (as amended). For a stream with 256 samples per chunk whose channels have four chunks
  (1024 samples), a read of samples [300, 600) returns 300 rows; each column is chunk 1
  without its first 44 samples (212 remain) followed by chunk 2 without its last 168
  samples (88 remain).
\<close>

theorem chunk_read_300_600:
  assumes hdr: "header self = Some h"
    and sel: "select_channels h stream_index channel_indexes = Inr gs"
    and ok: "stream_ok self seg_index stream_index dt 256 1024 gs"
  shows "get_analogsignal_chunk self block_index seg_index (Some 300) (Some 600) stream_index
           channel_indexes =
         Inr \<lparr>nrows = 300, elem_type = dt,
              columns = map (\<lambda>g. drop 44 (channel_chunks self seg_index dt 256 g ! 1) @
                                  take (256 - 168) (channel_chunks self seg_index dt 256 g ! 2)) gs\<rparr>
         \<and> list_all (\<lambda>g. length (channel_chunks self seg_index dt 256 g) = 4 \<and>
                length (drop 44 (channel_chunks self seg_index dt 256 g ! 1)) = 256 - 44 \<and>
                length (take (256 - 168) (channel_chunks self seg_index dt 256 g ! 2)) = 256 - 168) gs"
proof -
  have chans: "\<forall>g \<in> set gs. channel_ok self seg_index dt 256 1024 g"
    using ok by (simp add: stream_ok_def list_all_iff)
  have shape: "uniform 256 (channel_chunks self seg_index dt 256 g) \<and>
               length (channel_chunks self seg_index dt 256 g) = 4" if "g \<in> set gs" for g
  proof -
    from chans that have "channel_ok self seg_index dt 256 1024 g" by blast
    then obtain data_index data_buf where
      f: "1024 = 256 * int (length data_index)"
         "\<forall>r \<in> set data_index. chunk_in_buffer data_buf dt 256 r"
         "channel_chunks self seg_index dt 256 g = map (chunk_elems data_buf dt 256) data_index"
      by (rule channel_okD)
    have "uniform (nat 256) (map (chunk_elems data_buf dt 256) data_index)"
      by (rule uniform_chunk_elems [OF _ f(2)]) simp
    moreover have "length data_index = 4" using f(1) by linarith
    ultimately show ?thesis by (simp add: f(3))
  qed
  have "get_analogsignal_chunk self block_index seg_index (Some 300) (Some 600) stream_index
           channel_indexes =
         Inr \<lparr>nrows = nat (600 - 300), elem_type = dt,
              columns = map (\<lambda>g. take (nat (600 - 300))
                           (drop (nat 300) (concat (channel_chunks self seg_index dt 256 g)))) gs\<rparr>"
    by (rule chunk_read_ok [OF hdr sel ok]) simp_all
  moreover have "map (\<lambda>g. take (nat (600 - 300))
                   (drop (nat 300) (concat (channel_chunks self seg_index dt 256 g)))) gs =
        map (\<lambda>g. drop 44 (channel_chunks self seg_index dt 256 g ! 1) @
                  take (256 - 168) (channel_chunks self seg_index dt 256 g ! 2)) gs"
  proof (rule map_cong [OF refl])
    fix g assume "g \<in> set gs"
    from shape [OF this] show "take (nat (600 - 300))
            (drop (nat 300) (concat (channel_chunks self seg_index dt 256 g))) =
          drop 44 (channel_chunks self seg_index dt 256 g ! 1) @
          take (256 - 168) (channel_chunks self seg_index dt 256 g ! 2)"
      using slice_300_600 [of "channel_chunks self seg_index dt 256 g"] by simp
  qed
  moreover have "list_all (\<lambda>g. length (channel_chunks self seg_index dt 256 g) = 4 \<and>
                length (drop 44 (channel_chunks self seg_index dt 256 g ! 1)) = 256 - 44 \<and>
                length (take (256 - 168) (channel_chunks self seg_index dt 256 g ! 2)) = 256 - 168) gs"
    unfolding list_all_iff
  proof
    fix g assume g: "g \<in> set gs"
    let ?cs = "channel_chunks self seg_index dt 256 g"
    have "length (?cs ! 1) = 256" "length (?cs ! 2) = 256"
      using shape [OF g] by (simp_all add: uniform_def)
    then show "length ?cs = 4 \<and> length (drop 44 (?cs ! 1)) = 256 - 44 \<and>
               length (take (256 - 168) (?cs ! 2)) = 256 - 168"
      using shape [OF g] by simp
  qed
  ultimately show ?thesis by simp
qed

text \<open>Witness for C1: the example stream \<open>c1_reader\<close> satisfies the hypotheses.\<close>

theorem chunk_read_300_600_witness:
  "get_analogsignal_chunk c1_reader 0 0 (Some 300) (Some 600) 0 None =
     Inr \<lparr>nrows = 300, elem_type = Int8,
          columns = [drop 44 (channel_chunks c1_reader 0 Int8 256 0 ! 1) @
                     take (256 - 168) (channel_chunks c1_reader 0 Int8 256 0 ! 2)]\<rparr>
   \<and> length (take (256 - 168) (channel_chunks c1_reader 0 Int8 256 0 ! 2)) = 256 - 168"
proof -
  have hdr: "header c1_reader = Some (the (header c1_reader))"
    by (simp add: c1_reader_def empty_reader_def)
  show ?thesis
    using chunk_read_300_600 [OF hdr c1_select c1_stream_ok, of 0] by simp
qed

text \<open>
  Counterexample to C1 as stated: on \<open>c1_reader\<close> the read keeps the first 88 samples of
  chunk 2, so it trims 168 samples from its end, not 24.
\<close>

theorem chunk_read_300_600_trims_168:
  "get_chunk c1_index c1_buf Int8 256 300 600 1 3 2 =
     Inr (take 88 (chunk_elems c1_buf Int8 256 (c1_index ! 2)))
   \<and> length (chunk_elems c1_buf Int8 256 (c1_index ! 2)) = 256
   \<and> length (take 88 (chunk_elems c1_buf Int8 256 (c1_index ! 2))) = 256 - 168
   \<and> length (take 88 (chunk_elems c1_buf Int8 256 (c1_index ! 2))) \<noteq> 256 - 24"
proof -
  have inb: "chunk_in_buffer c1_buf Int8 256 (c1_index ! nat 2)"
    using c1_index_in_buffer by (simp add: c1_index_eq)
  have len: "length (chunk_elems c1_buf Int8 256 (c1_index ! 2)) = 256"
    using length_chunk_elems [OF _ inb] by simp
  have "get_chunk c1_index c1_buf Int8 256 300 600 1 3 2 =
        Inr (piece c1_buf Int8 256 300 600 1 3 (c1_index ! nat 2) 2)"
    by (rule get_chunk_ok [OF _ _ _ inb]) (simp_all add: c1_index_eq)
  then show ?thesis using len by (simp add: piece_def)
qed

subsection \<open>C2: reading any range of a stream\<close>

lemma channel_get_chunk_piece:
  assumes ok: "channel_ok self seg_index dt spc len g"
    and spc: "0 < spc" and a: "0 \<le> a" and ab: "a \<le> b" and bl: "b \<le> len"
    and mem: "k \<in> set (py_range (a div spc) (- ((- b) div spc)))"
  shows "channel_get_chunk self seg_index dt spc a b g k =
         Inr (channel_piece self seg_index dt spc a b g k)"
proof -
  from ok obtain data_index data_buf where
    f: "sigs_index self (seg_index, g) = Some data_index"
       "sigs_data_buf self (seg_index, g) = Some data_buf"
       "len = spc * int (length data_index)"
       "\<forall>r \<in> set data_index. chunk_in_buffer data_buf dt spc r"
    by (rule channel_okD)
  have b: "0 \<le> b" using a ab by simp
  have bn: "b \<le> spc * int (length data_index)" using bl f(3) by simp
  have bn': "nat b \<le> length data_index * nat spc" using nat_le_chunks [OF spc b bn] .
  have bl0: "0 \<le> a div spc" using a spc by (simp add: pos_imp_zdiv_nonneg_iff)
  have top: "nat (- ((- b) div spc)) \<le> length data_index"
    using ceil_le_length [OF _ bn'] spc nat_ceil_div [OF spc b] by simp
  from mem have "k \<in> int ` set [nat (a div spc)..<nat (- ((- b) div spc))]"
    using py_range_nat [OF bl0] by simp
  then have k: "0 \<le> k" "k < int (length data_index)" using top by auto
  then have "chunk_in_buffer data_buf dt spc (data_index ! nat k)" using f(4) by simp
  then show ?thesis
    using get_chunk_ok [OF spc k] by (simp add: channel_get_chunk_def channel_piece_def f(1) f(2))
qed

lemma length_c2_buf: "length c2_buf = 48"
  by (simp add: c2_buf_def)

lemma c2_index_eq:
  "c2_index c = [stream_rec ''Wave'' c (8 * (int c - 1)) 2,
                 stream_rec ''Wave'' c (16 + 8 * (int c - 1)) 2,
                 stream_rec ''Wave'' c (32 + 8 * (int c - 1)) 2]"
  by (simp add: c2_index_def upt_conv_Cons)

lemma c2_select: "select_channels (the (header c2_reader)) 0 None = Inr [0, 1]"
  by (simp add: c2_reader_def empty_reader_def select_channels_def py_index_def bind_def
      wave_channel_def upt_conv_Cons)

lemma c2_stream_ok: "stream_ok c2_reader 0 0 Int16 4 12 [0, 1]"
  by (simp add: stream_ok_def channel_ok_def c2_reader_def empty_reader_def c2_index_eq
      length_c2_buf chunk_in_buffer_def stream_rec_def)

text \<open>
  C2 (as amended). On a stream with a positive chunk size whose chunks lie inside their
  buffers, a read of \<open>[i_start, i_stop)\<close> with \<open>0 \<le> i_start \<le> i_stop \<le> len\<close> succeeds.
  The chunks visited are \<open>i_start div spc\<close> up to, not including, the ceiling of
  \<open>i_stop / spc\<close>. Each of them is read as \<open>channel_piece\<close>: the \<open>spc\<close> elements at the
  record's byte offset, cut after \<open>i_stop mod spc\<close> elements when it is the last chunk and
  that remainder is not zero, then without its first \<open>i_start mod spc\<close> elements when it
  is the first chunk. The result has \<open>i_stop - i_start\<close> rows, the stream's element type
  and one column per selected channel: the concatenated pieces, which are the samples
  \<open>i_start\<close> to \<open>i_stop\<close> of the channel.
\<close>

theorem chunk_read_range:
  assumes hdr: "header self = Some h"
    and sel: "select_channels h stream_index channel_indexes = Inr gs"
    and ok: "stream_ok self seg_index stream_index dt spc len gs"
    and rng: "0 \<le> i_start" "i_start \<le> i_stop" "i_stop \<le> len"
  shows "get_analogsignal_chunk self block_index seg_index (Some i_start) (Some i_stop)
           stream_index channel_indexes =
         Inr \<lparr>nrows = nat (i_stop - i_start), elem_type = dt,
              columns = map (\<lambda>g. concat (map (channel_piece self seg_index dt spc i_start i_stop g)
                           (py_range (i_start div spc) (- ((- i_stop) div spc))))) gs\<rparr>
       \<and> list_all (\<lambda>g.
             list_all (\<lambda>bl. channel_get_chunk self seg_index dt spc i_start i_stop g bl =
                            Inr (channel_piece self seg_index dt spc i_start i_stop g bl))
               (py_range (i_start div spc) (- ((- i_stop) div spc))) \<and>
             concat (map (channel_piece self seg_index dt spc i_start i_stop g)
                (py_range (i_start div spc) (- ((- i_stop) div spc)))) =
               take (nat (i_stop - i_start))
                 (drop (nat i_start) (concat (channel_chunks self seg_index dt spc g))) \<and>
             length (concat (map (channel_piece self seg_index dt spc i_start i_stop g)
                (py_range (i_start div spc) (- ((- i_stop) div spc))))) =
               nat (i_stop - i_start)) gs"
proof -
  have spc: "0 < spc" and chans: "\<forall>g \<in> set gs. channel_ok self seg_index dt spc len g"
    using ok by (simp_all add: stream_ok_def list_all_iff)
  let ?rng = "py_range (i_start div spc) (- ((- i_stop) div spc))"
  have pc: "concat (map (channel_piece self seg_index dt spc i_start i_stop g) ?rng) =
            take (nat (i_stop - i_start))
              (drop (nat i_start) (concat (channel_chunks self seg_index dt spc g)))"
    if "g \<in> set gs" for g
    using piece_concat [OF _ spc rng] chans that by blast
  have len: "length (take (nat (i_stop - i_start))
              (drop (nat i_start) (concat (channel_chunks self seg_index dt spc g)))) =
             nat (i_stop - i_start)" if "g \<in> set gs" for g
  proof -
    from chans that have "channel_ok self seg_index dt spc len g" by blast
    then obtain data_index data_buf where
      f: "len = spc * int (length data_index)"
         "\<forall>r \<in> set data_index. chunk_in_buffer data_buf dt spc r"
         "channel_chunks self seg_index dt spc g = map (chunk_elems data_buf dt spc) data_index"
      by (rule channel_okD)
    have b: "0 \<le> i_stop" using rng by simp
    have "i_stop \<le> spc * int (length data_index)" using rng(3) f(1) by simp
    then have "nat i_stop \<le> length data_index * nat spc" using nat_le_chunks [OF spc b] by blast
    moreover have "length (concat (channel_chunks self seg_index dt spc g)) =
                   length data_index * nat spc"
      using length_concat_uniform [OF uniform_chunk_elems [OF spc f(2)]] by (simp add: f(3))
    moreover have "nat (i_stop - i_start) = nat i_stop - nat i_start" using rng by linarith
    ultimately show ?thesis by (simp only: length_take length_drop) linarith
  qed
  have "get_analogsignal_chunk self block_index seg_index (Some i_start) (Some i_stop)
           stream_index channel_indexes =
         Inr \<lparr>nrows = nat (i_stop - i_start), elem_type = dt,
              columns = map (\<lambda>g. take (nat (i_stop - i_start))
                 (drop (nat i_start) (concat (channel_chunks self seg_index dt spc g)))) gs\<rparr>"
    by (rule chunk_read_ok [OF hdr sel ok]) (use rng in simp_all)
  moreover have "map (\<lambda>g. take (nat (i_stop - i_start))
                 (drop (nat i_start) (concat (channel_chunks self seg_index dt spc g)))) gs =
        map (\<lambda>g. concat (map (channel_piece self seg_index dt spc i_start i_stop g) ?rng)) gs"
    by (rule map_cong [OF refl]) (simp add: pc)
  moreover have "list_all (\<lambda>g.
             list_all (\<lambda>bl. channel_get_chunk self seg_index dt spc i_start i_stop g bl =
                            Inr (channel_piece self seg_index dt spc i_start i_stop g bl)) ?rng \<and>
             concat (map (channel_piece self seg_index dt spc i_start i_stop g) ?rng) =
               take (nat (i_stop - i_start))
                 (drop (nat i_start) (concat (channel_chunks self seg_index dt spc g))) \<and>
             length (concat (map (channel_piece self seg_index dt spc i_start i_stop g) ?rng)) =
               nat (i_stop - i_start)) gs"
    unfolding list_all_iff
  proof (intro ballI conjI)
    fix g bl assume g: "g \<in> set gs" and bl: "bl \<in> set ?rng"
    from chans g have "channel_ok self seg_index dt spc len g" by blast
    then show "channel_get_chunk self seg_index dt spc i_start i_stop g bl =
               Inr (channel_piece self seg_index dt spc i_start i_stop g bl)"
      using channel_get_chunk_piece [OF _ spc rng bl] by blast
  next
    fix g assume g: "g \<in> set gs"
    show "concat (map (channel_piece self seg_index dt spc i_start i_stop g) ?rng) =
          take (nat (i_stop - i_start))
            (drop (nat i_start) (concat (channel_chunks self seg_index dt spc g)))"
      using pc [OF g] .
    then show "length (concat (map (channel_piece self seg_index dt spc i_start i_stop g) ?rng)) =
               nat (i_stop - i_start)"
      using len [OF g] by simp
  qed
  ultimately show ?thesis by simp
qed

text \<open>Witness for C2: a read of samples 3 to 9 of the example stream \<open>c2_reader\<close>.\<close>

theorem chunk_read_range_witness:
  "get_analogsignal_chunk c2_reader 0 0 (Some 3) (Some 9) 0 None =
     Inr \<lparr>nrows = 6, elem_type = Int16,
          columns = map (\<lambda>g. concat (map (channel_piece c2_reader 0 Int16 4 3 9 g)
                       (py_range 0 3))) [0, 1]\<rparr>"
proof -
  have hdr: "header c2_reader = Some (the (header c2_reader))"
    by (simp add: c2_reader_def empty_reader_def)
  have rng: "0 \<le> (3::int)" "(3::int) \<le> 9" "(9::int) \<le> 12"
    by simp_all
  have "get_analogsignal_chunk c2_reader 0 0 (Some 3) (Some 9) 0 None =
     Inr \<lparr>nrows = nat (9 - 3), elem_type = Int16,
          columns = map (\<lambda>g. concat (map (channel_piece c2_reader 0 Int16 4 3 9 g)
                       (py_range (3 div 4) (- ((- 9) div 4))))) [0, 1]\<rparr>"
    using chunk_read_range [OF hdr c2_select c2_stream_ok rng, of 0] by (rule conjunct1)
  then show ?thesis by simp
qed

text \<open>
  Counterexample to C2 as stated: a read of samples 0 to 4 with chunks of 4 samples.
  Chunk 0 is the last chunk (\<open>bl1 - 1\<close>) and \<open>4 mod 4 = 0\<close>; the reader keeps all four
  samples of it, not the none that lie before position \<open>i_stop mod spc\<close>.
\<close>

theorem chunk_read_aligned_stop_keeps_chunk:
  "get_chunk (c2_index 1) c2_buf Int16 4 0 4 (0 div 4) (- ((- 4) div 4)) 0 =
     Inr (chunk_elems c2_buf Int16 4 (c2_index 1 ! 0))
   \<and> length (chunk_elems c2_buf Int16 4 (c2_index 1 ! 0)) = 4
   \<and> 0 = - ((- 4) div 4) - (1 :: int)
   \<and> get_chunk (c2_index 1) c2_buf Int16 4 0 4 (0 div 4) (- ((- 4) div 4)) 0 \<noteq>
     Inr (take (nat (4 mod 4)) (chunk_elems c2_buf Int16 4 (c2_index 1 ! 0)))"
proof -
  have inb: "chunk_in_buffer c2_buf Int16 4 (c2_index 1 ! nat 0)"
    by (simp add: c2_index_eq length_c2_buf chunk_in_buffer_def stream_rec_def)
  have len: "length (chunk_elems c2_buf Int16 4 (c2_index 1 ! 0)) = 4"
    using length_chunk_elems [OF _ inb] by simp
  have "get_chunk (c2_index 1) c2_buf Int16 4 0 4 (0 div 4) (- ((- 4) div 4)) 0 =
        Inr (piece c2_buf Int16 4 0 4 (0 div 4) (- ((- 4) div 4)) (c2_index 1 ! nat 0) 0)"
    by (rule get_chunk_ok [OF _ _ _ inb]) (simp_all add: c2_index_eq)
  then have "get_chunk (c2_index 1) c2_buf Int16 4 0 4 (0 div 4) (- ((- 4) div 4)) 0 =
        Inr (chunk_elems c2_buf Int16 4 (c2_index 1 ! 0))"
    by (simp add: piece_def)
  then show ?thesis using len by auto
qed

subsection \<open>C9: opening a path that does not exist\<close>

text \<open>
  C9. When the path is neither a directory nor a file, the constructor raises
  ValueError; opening fails with it and yields no reader, hence no header.
\<close>

theorem open_missing_path:
  assumes "\<not> is_dir e d" "\<not> is_file e d"
  shows "init e d s = Inl ValueError \<and> open_tdt e d s = Inl ValueError \<and>
         (\<forall>self. open_tdt e d s \<noteq> Inr self)"
  using assms by (simp add: init_def open_tdt_def)

text \<open>Witness for C9: a path in a world without files.\<close>

theorem open_missing_path_witness:
  "init no_files ''tank'' [] = Inl ValueError \<and> open_tdt no_files ''tank'' [] = Inl ValueError"
proof -
  have "\<not> is_dir no_files ''tank''" "\<not> is_file no_files ''tank''"
    by (simp_all add: no_files_def)
  from open_missing_path [OF this] show ?thesis by blast
qed

subsection \<open>C7: the start and stop sentinels\<close>

lemma segment_times_short:
  "length recs < 2 \<Longrightarrow> segment_times recs = Inl IndexError"
  by (simp add: segment_times_def py_index_def)

lemma segment_times_value:
  assumes "2 \<le> length recs"
  shows "segment_times recs =
           Inr (if evname (recs ! 1) = [char_of EVMARK_STARTBLOCK]
                then timestamp (recs ! 1) else NaN,
                if evname (last recs) = [char_of EVMARK_STOPBLOCK]
                then timestamp (last recs) else NaN)"
proof -
  have i1: "py_index recs 1 = Inr (recs ! 1)"
    using assms by (simp add: py_index_def)
  have "recs \<noteq> []" using assms by auto
  then have "last recs = recs ! (length recs - 1)" by (rule last_conv_nth)
  moreover have "nat (- 1 + int (length recs)) = length recs - 1" using assms by linarith
  ultimately have il: "py_index recs (- 1) = Inr (last recs)"
    using assms by (simp add: py_index_def)
  show ?thesis
    unfolding segment_times_def i1 il by (simp add: Let_def)
qed

lemma block_recs_marks:
  "block_recs t0 t1 ! 1 = mark_rec 1 t0" "last (block_recs t0 t1) = mark_rec 2 t1"
  "2 \<le> length (block_recs t0 t1)"
  by (simp_all add: block_recs_def)

lemma mark_rec_fields:
  "evname (mark_rec 1 t) = [char_of EVMARK_STARTBLOCK]"
  "evname (mark_rec 2 t) = [char_of EVMARK_STOPBLOCK]"
  "timestamp (mark_rec k t) = Val t"
  by (simp_all add: mark_rec_def EVMARK_STARTBLOCK_def EVMARK_STOPBLOCK_def)

lemma block_times: "segment_times (block_recs t0 t1) = Inr (Val t0, Val t1)"
  using segment_times_value [OF block_recs_marks(3), of t0 t1]
  unfolding block_recs_marks(1,2) mark_rec_fields by simp

text \<open>
  C7 (as amended). For an index of at least two records the extraction succeeds: the
  start time is the timestamp of the second record exactly when that record is named by
  the start marker and NaN otherwise, the stop time is the timestamp of the last record
  exactly when it is named by the stop marker and NaN otherwise. Without a sort name the
  segment then loads with these times and its records unchanged.
\<close>

theorem segment_times_sentinels:
  assumes "2 \<le> length recs"
  shows "segment_times recs =
           Inr (if evname (recs ! 1) = [char_of EVMARK_STARTBLOCK]
                then timestamp (recs ! 1) else NaN,
                if evname (last recs) = [char_of EVMARK_STOPBLOCK]
                then timestamp (last recs) else NaN)
         \<and> (segment_tsq e self segment_name = Inr recs \<and> sortname self = [] \<longrightarrow>
              load_tsq e self segment_name =
                Inr (recs,
                     if evname (recs ! 1) = [char_of EVMARK_STARTBLOCK]
                     then timestamp (recs ! 1) else NaN,
                     if evname (last recs) = [char_of EVMARK_STOPBLOCK]
                     then timestamp (last recs) else NaN))"
  using segment_times_value [OF assms] by (simp add: load_tsq_def)

text \<open>
  Witness for C7: block A of the example tank has both markers; an index whose second
  and last records are ordinary records gives NaN twice.
\<close>

theorem segment_times_sentinels_witness:
  "segment_times (block_recs 100 110) = Inr (Val 100, Val 110) \<and>
   segment_times [mark_rec 0 0, tick_rec 0 1 7, tick_rec 0 2 9] = Inr (NaN, NaN) \<and>
   load_tsq tank_env (new_reader ''tank'' Multi []) ''blockA'' =
     Inr (block_recs 100 110, Val 100, Val 110)"
proof -
  have a: "2 \<le> length (block_recs 100 110)"
    by (simp add: block_recs_def)
  have b: "2 \<le> length [mark_rec 0 0, tick_rec 0 1 7, tick_rec 0 2 9]"
    by simp
  have c: "segment_tsq tank_env (new_reader ''tank'' Multi []) ''blockA'' =
           Inr (block_recs 100 110)"
    by (simp add: segment_tsq_def tank_env_def get_filestem_def new_reader_def join_def
        with_suffix_def path_suffix_def path_name_def)
  have d: "sortname (new_reader ''tank'' Multi []) = []"
    by (simp add: new_reader_def)
  have m: "block_recs 100 110 ! 1 = mark_rec 1 100" "last (block_recs 100 110) = mark_rec 2 110"
    by (simp_all add: block_recs_def)
  have m': "evname (mark_rec 1 100) = [char_of EVMARK_STARTBLOCK]"
    "evname (mark_rec 2 110) = [char_of EVMARK_STOPBLOCK]"
    "timestamp (mark_rec 1 100) = Val 100" "timestamp (mark_rec 2 110) = Val 110"
    by (simp_all add: mark_rec_def EVMARK_STARTBLOCK_def EVMARK_STOPBLOCK_def)
  have t: "[mark_rec 0 0, tick_rec 0 1 7, tick_rec 0 2 9] ! 1 = tick_rec 0 1 7"
    "last [mark_rec 0 0, tick_rec 0 1 7, tick_rec 0 2 9] = tick_rec 0 2 9"
    "evname (tick_rec 0 1 7) \<noteq> [char_of EVMARK_STARTBLOCK]"
    "evname (tick_rec 0 2 9) \<noteq> [char_of EVMARK_STOPBLOCK]"
    by (simp_all add: tick_rec_def)
  note A = segment_times_sentinels [OF a, of tank_env "new_reader ''tank'' Multi []" "''blockA''",
      unfolded m m' if_True]
  note B = segment_times_sentinels [OF b, of tank_env "new_reader ''tank'' Multi []" "''blockA''",
      unfolded t(1,2), THEN conjunct1]
  show ?thesis using A B c d t(3,4) by simp
qed

text \<open>
  Counterexample to C7 as stated: an index of a single record has no second record; the
  extraction raises IndexError, and so does loading the segment.
\<close>

theorem segment_times_one_record:
  "segment_times [mark_rec 0 0] = Inl IndexError \<and>
   load_tsq (tank_env\<lparr>fromfile_tsq := (\<lambda>_. Inr [mark_rec 0 0])\<rparr>)
     (new_reader ''tank'' Multi []) ''blockA'' = Inl IndexError"
  by (simp add: segment_times_short load_tsq_def segment_tsq_def)

subsection \<open>C6: the descriptors of all segments must agree\<close>

lemma check_tbk_success:
  "check_tbk rd names acc = Inr r \<Longrightarrow>
   (case acc of
      Some first \<Rightarrow> r = Some first \<and> (\<forall>n \<in> set names. \<exists>info. rd n = Inr info \<and> array_equal first info)
    | None \<Rightarrow> (case names of [] \<Rightarrow> r = None
               | n0 # rest \<Rightarrow> \<exists>first. rd n0 = Inr first \<and> r = Some first \<and>
                    (\<forall>n \<in> set rest. \<exists>info. rd n = Inr info \<and> array_equal first info)))"
proof (induction names arbitrary: acc)
  case Nil
  then show ?case by (simp split: option.splits)
next
  case (Cons n names)
  from Cons.prems obtain info where info: "rd n = Inr info"
    by (auto simp: bind_Inr_iff)
  show ?case
  proof (cases acc)
    case None
    then have "check_tbk rd names (Some info) = Inr r" using Cons.prems info by simp
    from Cons.IH [OF this] show ?thesis using None info by simp
  next
    case (Some first)
    then have eq: "array_equal first info" and rest: "check_tbk rd names (Some first) = Inr r"
      using Cons.prems info by (simp_all split: if_splits)
    from Cons.IH [OF rest] show ?thesis using Some info eq by simp
  qed
qed

lemma float_eq_imp_eq: "float_eq a b \<Longrightarrow> a = b"
  by (cases a; cases b) simp_all

lemma group_equal_imp_eq: "group_equal a b \<Longrightarrow> a = b"
  by (cases a, cases b) (auto simp: group_equal_def dest: float_eq_imp_eq)

lemma array_equal_imp_eq: "array_equal xs ys \<Longrightarrow> xs = ys"
  unfolding array_equal_def
  by (auto simp: list_all2_conv_all_nth intro!: nth_equalityI dest: group_equal_imp_eq)

lemma check_tbk_errors:
  "check_tbk rd names acc = Inl err \<Longrightarrow> (\<forall>n \<in> set names. \<exists>info. rd n = Inr info) \<Longrightarrow>
   err = AssertionError"
proof (induction names arbitrary: acc)
  case Nil
  then show ?case by simp
next
  case (Cons n names)
  from Cons.prems(2) obtain info where info: "rd n = Inr info" by auto
  show ?case
  proof (cases acc)
    case None
    then show ?thesis using Cons info by simp
  next
    case (Some first)
    then show ?thesis using Cons info by (simp split: if_splits)
  qed
qed

text \<open>
  C6. The descriptor file is read for each segment in turn. When every read succeeds
  and the descriptors of some segment differ from those of the first, loading them fails
  with AssertionError, and so does the header pass; and loading succeeds only when all
  segments gave the descriptors of the first.
\<close>

theorem descriptors_must_agree:
  assumes reads: "\<forall>n \<in> set names. \<exists>info. segment_tbk e self n = Inr info"
    and diff: "\<exists>n \<in> set names. segment_tbk e self n \<noteq> segment_tbk e self (hd names)"
  shows "load_tbk e self names = Inl AssertionError \<and>
         (names = find_segments e self \<longrightarrow> parse_header e self = Inl AssertionError)"
proof -
  have fails: "load_tbk e self names \<noteq> Inr r" for r
  proof
    assume ok: "load_tbk e self names = Inr r"
    from diff obtain n where n: "n \<in> set names"
      "segment_tbk e self n \<noteq> segment_tbk e self (hd names)" by blast
    then obtain n0 rest where names: "names = n0 # rest" by (cases names) auto
    from check_tbk_success [OF ok [unfolded load_tbk_def]] names
    obtain first where first: "segment_tbk e self n0 = Inr first"
      "\<forall>m \<in> set rest. \<exists>info. segment_tbk e self m = Inr info \<and> array_equal first info"
      by auto
    have "segment_tbk e self m = Inr first" if "m \<in> set names" for m
      using that first names array_equal_imp_eq by auto
    then show False using n names first(1) by simp
  qed
  then obtain err where err: "load_tbk e self names = Inl err"
    by (cases "load_tbk e self names") auto
  then have "err = AssertionError"
    using check_tbk_errors [OF _ reads] by (simp add: load_tbk_def)
  then have L: "load_tbk e self names = Inl AssertionError" using err by simp
  have "parse_header e self = Inl AssertionError" if "names = find_segments e self"
  proof -
    have "load_tbk e self (find_segments e self) = Inl AssertionError"
      using L that by simp
    then show ?thesis by (simp add: parse_header_def Let_def)
  qed
  then show ?thesis using L by blast
qed

lemma descriptors_agree_on_success:
  assumes "load_tbk e self names = Inr r"
  shows "\<forall>n \<in> set names. segment_tbk e self n = segment_tbk e self (hd names)"
proof (cases names)
  case Nil
  then show ?thesis by simp
next
  case (Cons n0 rest)
  from check_tbk_success [OF assms [unfolded load_tbk_def]] Cons
  obtain first where first: "segment_tbk e self n0 = Inr first"
    "\<forall>m \<in> set rest. \<exists>info. segment_tbk e self m = Inr info \<and> array_equal first info"
    by auto
  then show ?thesis using Cons array_equal_imp_eq by auto
qed

text \<open>
  Witness for C6: the example tank, where block B lacks the first store of block A.
\<close>

theorem descriptors_must_agree_witness:
  "load_tbk (tank_env\<lparr>read_tbk := (\<lambda>p. if endswith p ''blockB.Tbk''
                                     then Inr (tl tank_groups) else Inr tank_groups)\<rparr>)
     (new_reader ''tank'' Multi []) [''blockA'', ''blockB''] = Inl AssertionError \<and>
   parse_header (tank_env\<lparr>read_tbk := (\<lambda>p. if endswith p ''blockB.Tbk''
                                     then Inr (tl tank_groups) else Inr tank_groups)\<rparr>)
     (new_reader ''tank'' Multi []) = Inl AssertionError"
proof -
  let ?e = "tank_env\<lparr>read_tbk := (\<lambda>p. if endswith p ''blockB.Tbk''
                                     then Inr (tl tank_groups) else Inr tank_groups)\<rparr>"
  let ?self = "new_reader ''tank'' Multi []"
  have a: "segment_tbk ?e ?self ''blockA'' = Inr tank_groups"
    by (simp add: segment_tbk_def get_filestem_def new_reader_def join_def
        with_suffix_def path_suffix_def path_name_def endswith_def)
  have b: "segment_tbk ?e ?self ''blockB'' = Inr (tl tank_groups)"
    by (simp add: segment_tbk_def get_filestem_def new_reader_def join_def
        with_suffix_def path_suffix_def path_name_def endswith_def)
  have ne: "tl tank_groups \<noteq> tank_groups"
    by (simp add: tank_groups_def)
  have segs: "[''blockA'', ''blockB''] = find_segments ?e ?self"
    by code_simp
  have reads: "\<forall>n \<in> set [''blockA'', ''blockB'']. \<exists>info. segment_tbk ?e ?self n = Inr info"
    using a b by simp
  have diff: "\<exists>n \<in> set [''blockA'', ''blockB''].
      segment_tbk ?e ?self n \<noteq> segment_tbk ?e ?self (hd [''blockA'', ''blockB''])"
    using a b ne by simp
  from descriptors_must_agree [OF reads diff] segs show ?thesis by blast
qed

subsection \<open>C4 and C5: the sort overlay\<close>

lemma inner_slice:
  assumes "2 \<le> length recs"
  shows "py_slice recs (Some 1) (Some (- 1)) = take (length recs - 2) (drop 1 recs)"
proof -
  have "clip_bound (length recs) 1 = 1" using assms by (simp add: clip_bound_def)
  moreover have "clip_bound (length recs) (- 1) = length recs - 1"
    using assms by (simp add: clip_bound_def)
  moreover have "length recs - 1 - 1 = length recs - 2" by simp
  ultimately show ?thesis by (simp add: py_slice_def Let_def)
qed

lemma set_sortcodes_fits:
  assumes n: "2 \<le> length recs" and k: "length new = length recs - 2"
  shows "set_sortcodes recs new =
         Inr (map (\<lambda>i. if i = 0 \<or> i = length recs - 1 then recs ! i
                        else (recs ! i)\<lparr>sortcode := scast (new ! (i - 1))\<rparr>) [0..<length recs])"
proof -
  let ?n = "length recs"
  let ?inner = "take (?n - 2) (drop 1 recs)"
  let ?upd = "map (\<lambda>(r, c). r\<lparr>sortcode := scast c\<rparr>) (zip ?inner new)"
  let ?res = "take 1 recs @ ?upd @ drop (1 + (?n - 2)) recs"
  let ?goal = "map (\<lambda>i. if i = 0 \<or> i = ?n - 1 then recs ! i
                        else (recs ! i)\<lparr>sortcode := scast (new ! (i - 1))\<rparr>) [0..<?n]"
  have li: "length ?inner = ?n - 2" using n by simp
  have lu: "length ?upd = ?n - 2" using li k by simp
  have lr: "length ?res = ?n" using n lu by simp
  have "?res = ?goal"
  proof (rule nth_equalityI)
    show "length ?res = length ?goal" using lr by simp
  next
    fix i assume "i < length ?res"
    then have i: "i < ?n" using lr by simp
    consider "i = 0" | "1 \<le> i" "i < ?n - 1" | "i = ?n - 1" "1 \<le> i" using i by linarith
    then show "?res ! i = ?goal ! i"
    proof cases
      case 1
      then show ?thesis using n i by (simp add: nth_append)
    next
      case 2
      then have j: "i - 1 < ?n - 2" by linarith
      have "?res ! i = ?upd ! (i - 1)"
        using 2 n lu by (simp add: nth_append)
      also have "\<dots> = (?inner ! (i - 1))\<lparr>sortcode := scast (new ! (i - 1))\<rparr>"
        using j li k by simp
      also have "?inner ! (i - 1) = recs ! i"
        using j 2 n by simp
      finally show ?thesis using 2 i by simp
    next
      case 3
      have "?res ! i = drop (1 + (?n - 2)) recs ! (i - (1 + (?n - 2)))"
        using 3 n lu by (simp add: nth_append)
      also have "\<dots> = recs ! (1 + (?n - 2) + (i - (1 + (?n - 2))))"
        using n by (intro nth_drop) linarith
      also have "1 + (?n - 2) + (i - (1 + (?n - 2))) = i" using 3 n by linarith
      finally show ?thesis using 3 i n by simp
    qed
  qed
  then show ?thesis
    unfolding set_sortcodes_def Let_def inner_slice [OF n] using li k by simp
qed

lemma set_sortcodes_mismatch:
  assumes n: "2 \<le> length recs" and k: "length new \<noteq> length recs - 2" "length new \<noteq> 1"
  shows "set_sortcodes recs new = Inl ValueError"
  unfolding set_sortcodes_def Let_def inner_slice [OF n] using n k by simp

lemma sort_overlay_found:
  assumes "listdir e (sort_dir self) = Inr files"
    and "find (\<lambda>file. endswith file ''.SortResult'') files = Some file"
    and "fromfile_int8 e (join (sort_dir self) file) = Inr codes"
  shows "sort_overlay e self recs = set_sortcodes recs (drop 1024 codes)"
  using assms by (cases "set_sortcodes recs (drop 1024 codes)")
    (auto simp: sort_overlay_def Let_def set_sortcodes_def split: if_splits)

lemma overlaid_drop:
  assumes "2 \<le> length recs" "length codes = 1024 + (length recs - 2)"
  shows "set_sortcodes recs (drop 1024 codes) = Inr (overlaid recs codes)"
proof -
  have len: "length (drop 1024 codes) = length recs - 2" using assms by simp
  have "(if i = 0 \<or> i = length recs - 1 then recs ! i
         else (recs ! i)\<lparr>sortcode := scast (drop 1024 codes ! (i - 1))\<rparr>) =
        (if i = 0 \<or> i = length recs - 1 then recs ! i
         else (recs ! i)\<lparr>sortcode := scast (codes ! (1024 + (i - 1)))\<rparr>)"
    if "i \<in> set [0..<length recs]" for i
  proof -
    have "1024 + (i - 1) \<le> length codes" using that assms by simp
    then show ?thesis by simp
  qed
  then show ?thesis
    unfolding set_sortcodes_fits [OF assms(1) len] overlaid_def
    by (simp cong: map_cong)
qed

text \<open>
  C5. When the sort directory lists a \<^verbatim>\<open>.SortResult\<close> file and that file holds, after
  its header of 1024 bytes, one label per record between the first and the last, the
  labels replace the sort codes of those records in file order. The first and the last
  record keep theirs, and no other field of any record changes.
\<close>

theorem sort_overlay_applies:
  assumes "listdir e (sort_dir self) = Inr files"
    and "find (\<lambda>file. endswith file ''.SortResult'') files = Some file"
    and "fromfile_int8 e (join (sort_dir self) file) = Inr codes"
    and "2 \<le> length recs"
    and "length codes = 1024 + (length recs - 2)"
  shows "sort_overlay e self recs = Inr (overlaid recs codes) \<and>
         length (overlaid recs codes) = length recs \<and>
         overlaid recs codes ! 0 = recs ! 0 \<and>
         last (overlaid recs codes) = last recs \<and>
         (\<forall>i. 0 < i \<and> i < length recs - 1 \<longrightarrow>
              sortcode (overlaid recs codes ! i) = scast (codes ! (1024 + (i - 1)))) \<and>
         (\<forall>i < length recs.
              (overlaid recs codes ! i)\<lparr>sortcode := sortcode (recs ! i)\<rparr> = recs ! i)"
proof -
  have n: "recs \<noteq> []" "0 < length recs" using assms(4) by auto
  have "sort_overlay e self recs = Inr (overlaid recs codes)"
    using sort_overlay_found [OF assms(1-3)] overlaid_drop [OF assms(4, 5)] by simp
  moreover have len: "length (overlaid recs codes) = length recs"
    by (simp add: overlaid_def)
  moreover have "overlaid recs codes ! 0 = recs ! 0"
    using n by (simp add: overlaid_def)
  moreover have "last (overlaid recs codes) = last recs"
  proof -
    have "last (overlaid recs codes) = overlaid recs codes ! (length recs - 1)"
      using n len by (metis last_conv_nth length_0_conv)
    also have "\<dots> = recs ! (length recs - 1)" using n by (simp add: overlaid_def)
    finally show ?thesis using n by (simp add: last_conv_nth)
  qed
  moreover have "\<forall>i. 0 < i \<and> i < length recs - 1 \<longrightarrow>
      sortcode (overlaid recs codes ! i) = scast (codes ! (1024 + (i - 1)))"
  proof (intro allI impI)
    fix i assume i: "0 < i \<and> i < length recs - 1"
    then have "i < length recs" "i \<noteq> 0" "i \<noteq> length recs - 1" by linarith+
    then show "sortcode (overlaid recs codes ! i) = scast (codes ! (1024 + (i - 1)))"
      unfolding overlaid_def by simp
  qed
  moreover have "\<forall>i < length recs.
      (overlaid recs codes ! i)\<lparr>sortcode := sortcode (recs ! i)\<rparr> = recs ! i"
    by (simp add: overlaid_def)
  ultimately show ?thesis by blast
qed

lemma find_sort_result:
  "find (\<lambda>file. endswith file ''.SortResult'') [''notes.txt'', ''PLX.SortResult''] =
   Some ''PLX.SortResult''"
  by code_simp

lemma length_block_recs: "length (block_recs t0 t1) = 14"
  by (simp add: block_recs_def c2_index_def)

text \<open>
  Witness for C5: twelve labels for the twelve records between the sentinels of block A.
\<close>

theorem sort_overlay_applies_witness:
  "sort_overlay (overlay_env ([2, 2, 3] @ replicate 9 1)) (new_reader ''tank'' Multi ''PLX'')
     (block_recs 100 110) =
   Inr (overlaid (block_recs 100 110) (replicate 1024 0 @ [2, 2, 3] @ replicate 9 1))"
proof -
  let ?e = "overlay_env ([2, 2, 3] @ replicate 9 1)"
  let ?self = "new_reader ''tank'' Multi ''PLX''"
  have a: "listdir ?e (sort_dir ?self) = Inr [''notes.txt'', ''PLX.SortResult'']"
    by (simp add: overlay_env_def)
  have c: "fromfile_int8 ?e (join (sort_dir ?self) ''PLX.SortResult'') =
           Inr (replicate 1024 0 @ [2, 2, 3] @ replicate 9 1)"
    by (simp add: overlay_env_def)
  have n: "2 \<le> length (block_recs 100 110)"
    by (simp add: length_block_recs)
  have k: "length (replicate 1024 0 @ [2, 2, 3] @ replicate 9 (1 :: 8 word)) =
           1024 + (length (block_recs 100 110) - 2)"
    by (simp add: length_block_recs)
  from sort_overlay_applies [OF a find_sort_result c n k] show ?thesis by (rule conjunct1)
qed

lemma sort_overlay_shape_error:
  assumes "listdir e (sort_dir self) = Inr files"
    and "find (\<lambda>file. endswith file ''.SortResult'') files = Some file"
    and "fromfile_int8 e (join (sort_dir self) file) = Inr codes"
    and "2 \<le> length recs"
    and "length (drop 1024 codes) \<noteq> length recs - 2" "length (drop 1024 codes) \<noteq> 1"
  shows "sort_overlay e self recs = Inl ValueError"
  using sort_overlay_found [OF assms(1-3)] set_sortcodes_mismatch [OF assms(4-6)] by simp

lemma get_filestem_tev: "get_filestem (self\<lparr>tev_datas := x\<rparr>) n = get_filestem self n"
  by (cases "tdt_block_mode self") (simp_all add: get_filestem_def)

lemma sort_dir_tev: "sort_dir (self\<lparr>tev_datas := x\<rparr>) = sort_dir self"
  by (cases "tdt_block_mode self") (simp_all add: sort_dir_def)

lemma sort_overlay_tev: "sort_overlay e (self\<lparr>tev_datas := x\<rparr>) recs = sort_overlay e self recs"
  unfolding sort_overlay_def sort_dir_tev by (rule refl)

lemma load_tsq_tev: "load_tsq e (self\<lparr>tev_datas := x\<rparr>) n = load_tsq e self n"
  unfolding load_tsq_def segment_tsq_def get_filestem_tev sort_overlay_tev by simp

text \<open>
  C4 (as amended). When listing the sort directory, or reading the overlay file found
  in it, fails with an OSError, the overlay step returns the index unchanged: every
  record keeps its label, and the segment loads as it does without an overlay.
\<close>

theorem sort_overlay_oserror_silent:
  assumes "listdir e (sort_dir self) = Inl OSError \<or>
           (\<exists>files file. listdir e (sort_dir self) = Inr files \<and>
              find (\<lambda>file. endswith file ''.SortResult'') files = Some file \<and>
              fromfile_int8 e (join (sort_dir self) file) = Inl OSError)"
  shows "sort_overlay e self recs = Inr recs \<and>
         (segment_tsq e self segment_name = Inr recs \<and> sortname self \<noteq> [] \<longrightarrow>
            load_tsq e self segment_name =
              bind (segment_times recs) (\<lambda>times. Inr (recs, fst times, snd times)))"
proof -
  have "sort_overlay e self recs = Inr recs"
    using assms by (auto simp: sort_overlay_def Let_def)
  then show ?thesis by (simp add: load_tsq_def)
qed

text \<open>
  Witness for C4: the example tank has no sort directory; and a tank whose overlay
  file is listed but cannot be read.
\<close>

theorem sort_overlay_oserror_silent_witness:
  "sort_overlay tank_env (new_reader ''tank'' Multi ''PLX'') (block_recs 100 110) =
     Inr (block_recs 100 110) \<and>
   sort_overlay (tank_env\<lparr>listdir := (\<lambda>_. Inr [''notes.txt'', ''PLX.SortResult''])\<rparr>)
     (new_reader ''tank'' Multi ''PLX'') (block_recs 100 110) = Inr (block_recs 100 110)"
proof -
  let ?self = "new_reader ''tank'' Multi ''PLX''"
  let ?e = "tank_env\<lparr>listdir := (\<lambda>_. Inr [''notes.txt'', ''PLX.SortResult''])\<rparr>"
  have a: "listdir tank_env (sort_dir ?self) = Inl OSError \<or>
           (\<exists>files file. listdir tank_env (sort_dir ?self) = Inr files \<and>
              find (\<lambda>file. endswith file ''.SortResult'') files = Some file \<and>
              fromfile_int8 tank_env (join (sort_dir ?self) file) = Inl OSError)"
    by (simp add: tank_env_def)
  have "listdir ?e (sort_dir ?self) = Inr [''notes.txt'', ''PLX.SortResult''] \<and>
        find (\<lambda>file. endswith file ''.SortResult'') [''notes.txt'', ''PLX.SortResult''] =
          Some ''PLX.SortResult'' \<and>
        fromfile_int8 ?e (join (sort_dir ?self) ''PLX.SortResult'') = Inl OSError"
    using find_sort_result by (simp add: tank_env_def)
  then have b: "listdir ?e (sort_dir ?self) = Inl OSError \<or>
           (\<exists>files file. listdir ?e (sort_dir ?self) = Inr files \<and>
              find (\<lambda>file. endswith file ''.SortResult'') files = Some file \<and>
              fromfile_int8 ?e (join (sort_dir ?self) file) = Inl OSError)"
    by blast
  from sort_overlay_oserror_silent [OF a, of "block_recs 100 110" "''blockA''"]
       sort_overlay_oserror_silent [OF b, of "block_recs 100 110" "''blockA''"]
  show ?thesis by blast
qed

text \<open>
  Counterexample to C4 as stated: an overlay file with five labels for the twelve
  records between the sentinels. The assignment raises ValueError, which the handler
  for OSError does not catch: loading the segment fails, and so does opening the tank.
\<close>

theorem sort_overlay_wrong_length_aborts:
  "sort_overlay (overlay_env [1, 2, 3, 4, 5]) (new_reader ''tank'' Multi ''PLX'')
     (block_recs 100 110) = Inl ValueError \<and>
   load_tsq (overlay_env [1, 2, 3, 4, 5]) (new_reader ''tank'' Multi ''PLX'') ''blockA'' =
     Inl ValueError \<and>
   open_tdt (overlay_env [1, 2, 3, 4, 5]) ''tank'' ''PLX'' = Inl ValueError"
proof -
  let ?e = "overlay_env [1, 2, 3, 4, 5]"
  let ?self = "new_reader ''tank'' Multi ''PLX''"
  have a: "listdir ?e (sort_dir ?self) = Inr [''notes.txt'', ''PLX.SortResult'']"
    by (simp add: overlay_env_def)
  have c: "fromfile_int8 ?e (join (sort_dir ?self) ''PLX.SortResult'') =
           Inr (replicate 1024 0 @ [1, 2, 3, 4, 5])"
    by (simp add: overlay_env_def)
  have so: "sort_overlay ?e ?self (block_recs t0 t1) = Inl ValueError" for t0 t1
    by (rule sort_overlay_shape_error [OF a find_sort_result c])
       (simp_all add: length_block_recs)
  have tsq_a: "segment_tsq ?e ?self ''blockA'' = Inr (block_recs 100 110)"
    by (simp add: segment_tsq_def overlay_env_def tank_env_def get_filestem_def
        new_reader_def join_def with_suffix_def path_suffix_def path_name_def)
  have times: "segment_times (block_recs 100 110) = Inr (Val 100, Val 110)"
    by (rule block_times)
  have sn: "sortname ?self \<noteq> []"
    by (simp add: new_reader_def)
  have lt: "load_tsq ?e ?self ''blockA'' = Inl ValueError"
    by (simp add: load_tsq_def tsq_a times so sn)
  have init: "init ?e ''tank'' ''PLX'' = Inr ?self"
    by (simp add: init_def overlay_env_def tank_env_def)
  have segs: "find_segments ?e ?self = [''blockA'', ''blockB'']"
    by code_simp
  have tbk: "load_tbk ?e ?self [''blockA'', ''blockB''] = Inr (Some tank_groups)"
    by code_simp
  have tev: "load_tev ?e ?self [''blockA'', ''blockB''] = Inr [Some c2_buf, Some c2_buf]"
    by code_simp
  have lt': "load_tsq ?e (?self\<lparr>tev_datas := [Some c2_buf, Some c2_buf]\<rparr>) ''blockA'' =
             Inl ValueError"
    using lt by (simp only: load_tsq_tev)
  have "parse_header ?e ?self = Inl ValueError"
    by (simp add: parse_header_def Let_def segs tbk tev load_index_def lt')
  then show ?thesis using so lt init by (simp add: open_tdt_def)
qed

subsection \<open>C10: events are the records of channel 0\<close>

lemma parse_header_events:
  assumes "parse_header e self0 = Inr self"
  shows "\<exists>hd0 infos. header self = Some hd0 \<and> event_channels hd0 = find_event_channels infos"
  using assms
  apply (auto simp: parse_header_def Let_def bind_Inr_iff split: option.splits)
  apply (rule exI)
  apply (rule refl)
  done

lemma find_event_channels_id:
  "h \<in> set (find_event_channels infos) \<Longrightarrow> ev_id h = 1"
  by (auto simp: find_event_channels_def)

lemma get_mask_plain:
  "get_mask self ev name chan_id None None None =
   (\<lambda>r. evtype r = ev \<and> evname r = name \<and> channel r = chan_id)"
  by (rule ext) (simp add: get_mask_def)

lemma event_records_value:
  assumes hdr: "header self = Some hd0"
    and i: "i < length (event_channels hd0)"
    and seg: "seg_index < length (tsq self)"
  shows "event_records self seg_index i =
         Inr (filter (\<lambda>r. evtype r = EVTYPE_STRON \<and> evname r = ev_name (event_channels hd0 ! i) \<and>
                          channel r = 0) (tsq self ! seg_index))"
  using assms
  by (simp add: event_records_def get_header_def py_index_def get_mask_plain)

lemma tank_opened:
  "case open_tdt tank_env ''tank'' [] of
     Inr self \<Rightarrow> length (tsq self) = 2 \<and>
       (case header self of Some hd0 \<Rightarrow> length (event_channels hd0) = 1 | None \<Rightarrow> False)
   | Inl _ \<Rightarrow> False"
  by code_simp

lemma tank_init: "init tank_env ''tank'' [] = Inr (new_reader ''tank'' Multi [])"
  by (simp add: init_def tank_env_def)

text \<open>
  C10. In a reader that the header pass produced, every event channel is published with
  id 1, while its count, timestamps and labels are taken from exactly the records of
  the segment with the onset event type, the channel's store name and channel number 0:
  no record with the published number 1, or any other number, is among them. The time
  limits of a timestamp request do not narrow the selection.
\<close>

theorem events_use_channel_zero:
  assumes opened: "parse_header e self0 = Inr self"
    and hdr: "header self = Some hd0"
    and i: "i < length (event_channels hd0)"
    and seg: "seg_index < length (tsq self)"
  shows "ev_id (event_channels hd0 ! i) = 1 \<and>
         event_count self block_index seg_index i =
           Inr (length (filter (\<lambda>r. evtype r = EVTYPE_STRON \<and>
                  evname r = ev_name (event_channels hd0 ! i) \<and> channel r = 0)
                  (tsq self ! seg_index))) \<and>
         get_event_timestamps self block_index seg_index i t_start t_stop =
           Inr (map (\<lambda>r. float_sub (timestamp r) (global_t_start self))
                  (filter (\<lambda>r. evtype r = EVTYPE_STRON \<and>
                     evname r = ev_name (event_channels hd0 ! i) \<and> channel r = 0)
                     (tsq self ! seg_index)),
                None,
                map (\<lambda>r. str_int (offset r))
                  (filter (\<lambda>r. evtype r = EVTYPE_STRON \<and>
                     evname r = ev_name (event_channels hd0 ! i) \<and> channel r = 0)
                     (tsq self ! seg_index))) \<and>
         filter (\<lambda>r. channel r = ev_id (event_channels hd0 ! i))
           (filter (\<lambda>r. evtype r = EVTYPE_STRON \<and>
              evname r = ev_name (event_channels hd0 ! i) \<and> channel r = 0)
              (tsq self ! seg_index)) = []"
proof -
  from parse_header_events [OF opened] hdr obtain infos where
    "event_channels hd0 = find_event_channels infos" by auto
  then have "event_channels hd0 ! i \<in> set (find_event_channels infos)"
    using i by (metis nth_mem)
  then have id1: "ev_id (event_channels hd0 ! i) = 1" by (rule find_event_channels_id)
  note recs = event_records_value [OF hdr i seg]
  show ?thesis
    unfolding event_count_def get_event_timestamps_def recs id1
    by (auto simp add: filter_empty_conv)
qed

text \<open>
  Witness for C10: the example tank once opened; its onset store has a record on
  channel 1 in each block.
\<close>

theorem events_use_channel_zero_witness:
  "bind (open_tdt tank_env ''tank'' []) (\<lambda>self.
     bind (get_header self) (\<lambda>hd0.
       Inr (ev_id (event_channels hd0 ! 0),
            event_count self 0 1 0 =
              Inr (length (filter (\<lambda>r. evtype r = EVTYPE_STRON \<and>
                     evname r = ev_name (event_channels hd0 ! 0) \<and> channel r = 0)
                     (tsq self ! 1)))))) = Inr (1, True)"
proof -
  from tank_opened obtain self hd0 where
    o: "open_tdt tank_env ''tank'' [] = Inr self" and n: "length (tsq self) = 2"
    and hdr: "header self = Some hd0" and m: "length (event_channels hd0) = 1"
    by (auto split: sum.splits option.splits)
  have p: "parse_header tank_env (new_reader ''tank'' Multi []) = Inr self"
    using o by (simp add: open_tdt_def tank_init)
  have i: "0 < length (event_channels hd0)" using m by simp
  have seg: "1 < length (tsq self)" using n by simp
  from events_use_channel_zero [OF p hdr i seg, of 0]
  show ?thesis by (simp add: o hdr get_header_def)
qed

end
